theory Spec2Isabelle
  imports Complex_Main "HOL-Library.Word" "HOL-Library.Sublist" "HOL-Library.Multiset"
begin

section \<open>JavaScript values shared by the content script\<close>

text \<open>
  The content script (\<^verbatim>\<open>initializeContentScript\<close>) is modelled function by function.
  A JavaScript string is a \<^typ>\<open>string\<close>; a thrown value is an \<open>exn\<close> carrying the
  \<^verbatim>\<open>message\<close> of the \<^verbatim>\<open>Error\<close> object; a function that may throw returns
  \<open>exn + 'a\<close> with \<open>Inl\<close> the exception.
\<close>

datatype exn = JsError string

fun message :: "exn \<Rightarrow> string" where
  "message (JsError m) = m"

text \<open>JavaScript truthiness of a string-or-undefined value: undefined and the empty string are falsy.\<close>

fun truthy :: "string option \<Rightarrow> bool" where
  "truthy None = False"
| "truthy (Some s) = (s \<noteq> [])"

section \<open>BackgroundCacheManagerProxy\<close>

subsection \<open>get and set\<close>

text \<open>
  \<^verbatim>\<open>chrome.runtime.sendMessage\<close> is the storage collaborator. It is a parameter of the
  model: given the message it either rejects (\<open>Inl\<close>), resolves with \<^verbatim>\<open>undefined\<close>
  (\<open>Inr None\<close>) or resolves with a response object.
\<close>

datatype 'v cache_message =
    CacheGet string
  | CacheSet string 'v string
  | CacheClear
  | CacheGetStats

record 'v response =
  error :: "string option"
  result :: "'v option"
  success :: bool

type_synonym 'v channel = "'v cache_message \<Rightarrow> exn + 'v response option"

text \<open>Reading a property of \<^verbatim>\<open>undefined\<close> throws a TypeError.\<close>

fun deref :: "'a option \<Rightarrow> exn + 'a" where
  "deref None = Inl (JsError ''Cannot read properties of undefined'')"
| "deref (Some r) = Inr r"

text \<open>The body of the \<^verbatim>\<open>try\<close> block of \<^verbatim>\<open>get\<close>.\<close>

definition get_body :: "'v channel \<Rightarrow> string \<Rightarrow> exn + 'v option" where
  "get_body sendMessage key =
     (case sendMessage (CacheGet key) of
        Inl e \<Rightarrow> Inl e
      | Inr resp \<Rightarrow>
          (case deref resp of
             Inl e \<Rightarrow> Inl e
           | Inr r \<Rightarrow>
               if truthy (error r) then Inl (JsError (the (error r)))
               else Inr (result r)))"

text \<open>\<^verbatim>\<open>get\<close>: the \<^verbatim>\<open>catch\<close> clause returns \<^verbatim>\<open>null\<close>.\<close>

definition get :: "'v channel \<Rightarrow> string \<Rightarrow> exn + 'v option" where
  "get sendMessage key =
     (case get_body sendMessage key of
        Inl e \<Rightarrow> Inr None
      | Inr v \<Rightarrow> Inr v)"

definition set_body :: "'v channel \<Rightarrow> string \<Rightarrow> 'v \<Rightarrow> string \<Rightarrow> exn + bool" where
  "set_body sendMessage key val type =
     (case sendMessage (CacheSet key val type) of
        Inl e \<Rightarrow> Inl e
      | Inr resp \<Rightarrow>
          (case deref resp of
             Inl e \<Rightarrow> Inl e
           | Inr r \<Rightarrow>
               if truthy (error r) then Inl (JsError (the (error r)))
               else Inr (success r)))"

text \<open>\<^verbatim>\<open>set\<close>: the \<^verbatim>\<open>catch\<close> clause returns \<^verbatim>\<open>false\<close>.\<close>

definition set_cache :: "'v channel \<Rightarrow> string \<Rightarrow> 'v \<Rightarrow> string \<Rightarrow> exn + bool" where
  "set_cache sendMessage key val type =
     (case set_body sendMessage key val type of
        Inl e \<Rightarrow> Inr False
      | Inr b \<Rightarrow> Inr b)"

text \<open>
  A storage call fails when the message channel rejects, answers nothing, or answers with a
  truthy \<^verbatim>\<open>error\<close> field.
\<close>

fun storage_failed :: "exn + 'v response option \<Rightarrow> bool" where
  "storage_failed (Inl e) = True"
| "storage_failed (Inr None) = True"
| "storage_failed (Inr (Some r)) = truthy (error r)"

subsection \<open>calculateHash and generateKey\<close>

text \<open>
  \<^verbatim>\<open>TextEncoder.encode\<close> and \<^verbatim>\<open>crypto.subtle.digest('SHA-256', _)\<close> are platform
  functions; they are parameters \<open>encode\<close> and \<open>digest\<close> of the model. The repository's
  own code is the hexadecimal rendering of the digest bytes and the key layout.
\<close>

type_synonym byte = "8 word"

definition hex_digits :: string where
  "hex_digits = ''0123456789abcdef''"

text \<open>\<^verbatim>\<open>b.toString(16)\<close> for a byte: one or two lowercase digits, no leading zero.\<close>

definition toString16 :: "byte \<Rightarrow> string" where
  "toString16 b =
     (if unat b < 16 then [hex_digits ! unat b]
      else [hex_digits ! (unat b div 16), hex_digits ! (unat b mod 16)])"

text \<open>\<^verbatim>\<open>s.padStart(n, '0')\<close>.\<close>

definition padStart :: "nat \<Rightarrow> char \<Rightarrow> string \<Rightarrow> string" where
  "padStart n c s = replicate (n - length s) c @ s"

definition calculateHash :: "(string \<Rightarrow> byte list) \<Rightarrow> (byte list \<Rightarrow> byte list) \<Rightarrow> string \<Rightarrow> string" where
  "calculateHash encode digest text =
     concat (map (\<lambda>b. padStart 2 (CHR ''0'') (toString16 b)) (digest (encode text)))"

definition generateKey ::
  "(string \<Rightarrow> byte list) \<Rightarrow> (byte list \<Rightarrow> byte list) \<Rightarrow> string \<Rightarrow> string \<Rightarrow> string" where
  "generateKey encode digest content type = calculateHash encode digest content @ ''_'' @ type"

text \<open>
  The specification's wording of the digest text: two lowercase hexadecimal digits per
  byte, high nibble first.
\<close>

definition lower_hex :: "byte list \<Rightarrow> string" where
  "lower_hex bs = concat (map (\<lambda>b. [hex_digits ! (unat b div 16), hex_digits ! (unat b mod 16)]) bs)"

section \<open>String primitives\<close>

text \<open>
  Characters are code units below 256. Case mapping is that of the ASCII letters; the
  sanitizer compares the mapped strings with ASCII literals only. White space is the part
  of JavaScript's \<^verbatim>\<open>\s\<close> class (which is also what \<^verbatim>\<open>trim\<close> strips) below 256:
  tab, line feed, vertical tab, form feed, carriage return, space and no-break space.
\<close>

definition upper_letters :: string where
  "upper_letters = ''ABCDEFGHIJKLMNOPQRSTUVWXYZ''"

definition lower_letters :: string where
  "lower_letters = ''abcdefghijklmnopqrstuvwxyz''"

definition toLowerChar :: "char \<Rightarrow> char" where
  "toLowerChar c = (case map_of (zip upper_letters lower_letters) c of Some d \<Rightarrow> d | None \<Rightarrow> c)"

definition toUpperChar :: "char \<Rightarrow> char" where
  "toUpperChar c = (case map_of (zip lower_letters upper_letters) c of Some d \<Rightarrow> d | None \<Rightarrow> c)"

definition toLowerCase :: "string \<Rightarrow> string" where
  "toLowerCase s = map toLowerChar s"

definition toUpperCase :: "string \<Rightarrow> string" where
  "toUpperCase s = map toUpperChar s"

definition is_ws :: "char \<Rightarrow> bool" where
  "is_ws c = (c \<in> set [CHR 0x09, CHR 0x0A, CHR 0x0B, CHR 0x0C, CHR 0x0D, CHR 0x20, CHR 0xA0])"

definition trim :: "string \<Rightarrow> string" where
  "trim s = rev (dropWhile is_ws (rev (dropWhile is_ws s)))"

text \<open>\<^verbatim>\<open>s.startsWith(p)\<close>.\<close>

abbreviation startsWith :: "string \<Rightarrow> string \<Rightarrow> bool" where
  "startsWith s p \<equiv> prefix p s"

text \<open>\<^verbatim>\<open>s.split(c)\<close> for a one-character separator: never the empty list.\<close>

fun split_on :: "char \<Rightarrow> string \<Rightarrow> string list" where
  "split_on c [] = [[]]"
| "split_on c (x # xs) =
     (if x = c then [] # split_on c xs
      else (case split_on c xs of
              [] \<Rightarrow> [[x]]
            | w # ws \<Rightarrow> (x # w) # ws))"

section \<open>The sanitizer\<close>

subsection \<open>isSafeUrl and isSafeSrcset\<close>

text \<open>
  \<^verbatim>\<open>new URL(trimmed, document.baseURI).protocol\<close> is the browser's URL parser. It is the
  parameter \<open>protocol\<close>: \<open>None\<close> when the constructor throws, otherwise the scheme with its
  colon, in lower case.
\<close>

definition allowed_protocols :: "string list" where
  "allowed_protocols = [''http:'', ''https:'', ''mailto:'', ''tel:'', ''chrome-extension:'', ''file:'']"

definition isSafeUrl :: "(string \<Rightarrow> string option) \<Rightarrow> string \<Rightarrow> bool" where
  "isSafeUrl protocol url =
     (if url = [] then True
      else let trimmed = trim url in
        if trimmed = [] \<or> startsWith trimmed ''#'' then True
        else let lower = toLowerCase trimmed in
          if startsWith lower ''javascript:'' \<or> startsWith lower ''vbscript:''
             \<or> startsWith lower ''data:text/javascript'' then False
          else if startsWith lower ''data:'' then
            startsWith lower ''data:image/'' \<or> startsWith lower ''data:application/pdf''
          else (case protocol trimmed of
                  None \<Rightarrow> False
                | Some p \<Rightarrow> p \<in> set allowed_protocols))"

text \<open>\<^verbatim>\<open>candidate.trim().split(/\s+/)[0]\<close>: the trimmed candidate up to its first white space.\<close>

definition urlPart :: "string \<Rightarrow> string" where
  "urlPart candidate = takeWhile (\<lambda>c. \<not> is_ws c) (trim candidate)"

definition isSafeSrcset :: "(string \<Rightarrow> string option) \<Rightarrow> string \<Rightarrow> bool" where
  "isSafeSrcset protocol val =
     (if val = [] then True
      else list_all (\<lambda>candidate. isSafeUrl protocol (urlPart candidate)) (split_on (CHR '','') val))"

subsection \<open>sanitizeElementAttributes\<close>

text \<open>
  An element's attributes are an ordered list of name and value. \<^verbatim>\<open>removeAttribute\<close>
  removes the first attribute of that name; \<^verbatim>\<open>setAttribute\<close> overwrites the value of the
  first attribute of that name and appends one when there is none.
\<close>

type_synonym attr = "string \<times> string"

fun removeAttribute :: "string \<Rightarrow> attr list \<Rightarrow> attr list" where
  "removeAttribute name [] = []"
| "removeAttribute name (a # as) = (if fst a = name then as else a # removeAttribute name as)"

fun setAttribute :: "string \<Rightarrow> string \<Rightarrow> attr list \<Rightarrow> attr list" where
  "setAttribute name v [] = [(name, v)]"
| "setAttribute name v (a # as) =
     (if fst a = name then (name, v) # as else a # setAttribute name v as)"

definition urlAttributes :: "string list" where
  "urlAttributes = [''src'', ''href'', ''xlink:href'', ''action'', ''formaction'', ''poster'', ''data'', ''srcset'']"

text \<open>The body of the \<^verbatim>\<open>forEach\<close> callback: one attribute of the snapshot against the element.\<close>

definition sanitizeAttr :: "(string \<Rightarrow> string option) \<Rightarrow> attr \<Rightarrow> attr list \<Rightarrow> attr list" where
  "sanitizeAttr protocol a element =
     (let attrName = toLowerCase (fst a) in
      if startsWith attrName ''on'' then removeAttribute (fst a) element
      else if attrName \<in> set urlAttributes then
        (if attrName = ''srcset'' then
           (if \<not> isSafeSrcset protocol (snd a) then removeAttribute (fst a) element else element)
         else if attrName = ''href'' \<or> attrName = ''xlink:href'' then
           (if snd a \<noteq> [] \<and> trim (snd a) \<noteq> [] then setAttribute (fst a) ''#'' element
            else removeAttribute (fst a) element)
         else if \<not> isSafeUrl protocol (snd a) then removeAttribute (fst a) element
         else element)
      else element)"

text \<open>
  \<^verbatim>\<open>Array.from(element.attributes).forEach(...)\<close>: the snapshot is walked in order, each
  step acting on the element as the earlier steps left it.
\<close>

definition sanitizeElementAttributes :: "(string \<Rightarrow> string option) \<Rightarrow> attr list \<Rightarrow> attr list" where
  "sanitizeElementAttributes protocol element =
     (if element = [] then element
      else fold (sanitizeAttr protocol) element element)"

subsection \<open>sanitizeNodeTree\<close>

text \<open>
  A node of the parsed template: an element with its \<^verbatim>\<open>tagName\<close>, attributes and child
  nodes, a text node, or a comment. A \<^verbatim>\<open>template\<close> element that the parser built is a
  node of its own kind: it has attributes and no child nodes, and what was written inside
  it is its \<^verbatim>\<open>content\<close>, a fragment apart that \<^verbatim>\<open>childNodes\<close> does not reach and that
  the serializer prints.
\<close>

datatype node =
    Element string "attr list" "node list"
  | Template "attr list" "node list"
  | Text string
  | Comment string

fun is_comment :: "node \<Rightarrow> bool" where
  "is_comment (Comment c) = True"
| "is_comment n = False"

definition blockedTags :: "string list" where
  "blockedTags = [''SCRIPT'', ''IFRAME'', ''OBJECT'', ''EMBED'', ''AUDIO'', ''VIDEO'']"

definition warning_style :: string where
  "warning_style = ''background: #fee; border-left: 4px solid #f00; padding: 10px; font-size: 12px; white-space: pre-wrap;''"

text \<open>
  The notice that replaces a blocked element. \<^verbatim>\<open>outerHTML\<close> is the browser's serializer,
  a parameter; its result is cut to 500 characters.
\<close>

definition blocked_warning :: "(node \<Rightarrow> string) \<Rightarrow> string \<Rightarrow> node \<Rightarrow> node" where
  "blocked_warning outerHTML tagName n =
     (let originalMarkup =
            (if outerHTML n \<noteq> [] then outerHTML n else ''<'' @ toLowerCase tagName @ ''>'');
          truncatedMarkup =
            (if length originalMarkup > 500 then take 500 originalMarkup @ ''...'' else originalMarkup);
          message = ''Blocked insecure <'' @ toLowerCase tagName @ ''> element removed.''
                    @ [CHR 0x0A, CHR 0x0A] @ truncatedMarkup
      in Element ''PRE'' [(''class'', ''blocked-html-warning''), (''style'', warning_style)] [Text message])"

text \<open>
  What the walk computes, as a recursion over the tree: a blocked element gives way to the
  notice and nothing below it is visited; any other element has its attributes sanitized,
  its comment children removed and its remaining children treated in the same way; a
  \<^verbatim>\<open>template\<close> element, whose tag is not blocked and which has no child nodes, has its
  attributes sanitized and keeps its content. The
  loop of the source, with its stack, is \<open>sanitizeNodeTree_stack\<close> below, which returns
  this very tree (lemma \<open>sanitizeNodeTree_stack_returns\<close>).
\<close>

fun sanitizeNode :: "(string \<Rightarrow> string option) \<Rightarrow> (node \<Rightarrow> string) \<Rightarrow> node \<Rightarrow> node" where
  "sanitizeNode protocol outerHTML (Element tag attrs children) =
     (let tagName = toUpperCase tag in
      if tagName \<in> set blockedTags then blocked_warning outerHTML tagName (Element tag attrs children)
      else Element tag (sanitizeElementAttributes protocol attrs)
             (map (sanitizeNode protocol outerHTML) (filter (\<lambda>c. \<not> is_comment c) children)))"
| "sanitizeNode protocol outerHTML (Template attrs content) =
     Template (sanitizeElementAttributes protocol attrs) content"
| "sanitizeNode protocol outerHTML (Text t) = Text t"
| "sanitizeNode protocol outerHTML (Comment c) = Comment c"

definition sanitizeNodeTree :: "(string \<Rightarrow> string option) \<Rightarrow> (node \<Rightarrow> string) \<Rightarrow> node list \<Rightarrow> node list" where
  "sanitizeNodeTree protocol outerHTML fragment =
     map (sanitizeNode protocol outerHTML) (filter (\<lambda>c. \<not> is_comment c) fragment)"

text \<open>
  \<^verbatim>\<open>sanitizeRenderedHtml\<close>: parse into a template, sanitize, serialize; when anything
  throws, the input is returned as it is. The parser and the serializer are parameters.
\<close>

definition sanitizeRenderedHtml ::
  "(string \<Rightarrow> string option) \<Rightarrow> (node \<Rightarrow> string) \<Rightarrow> (string \<Rightarrow> exn + node list)
     \<Rightarrow> (node list \<Rightarrow> string) \<Rightarrow> string \<Rightarrow> string" where
  "sanitizeRenderedHtml protocol outerHTML parse innerHTML html =
     (case parse html of
        Inl e \<Rightarrow> html
      | Inr fragment \<Rightarrow> innerHTML (sanitizeNodeTree protocol outerHTML fragment))"

subsection \<open>What the specification says of the sanitizer's output\<close>

text \<open>An event-handler attribute: its name, in lower case, begins with \<^verbatim>\<open>on\<close>.\<close>

definition is_handler :: "attr \<Rightarrow> bool" where
  "is_handler a = startsWith (toLowerCase (fst a)) ''on''"

definition is_url_attr :: "attr \<Rightarrow> bool" where
  "is_url_attr a = (toLowerCase (fst a) \<in> set urlAttributes)"

text \<open>
  A sanitized node: following child nodes, no element of it has a blocked tag, and no
  element of it carries an event-handler attribute. The content of a \<^verbatim>\<open>template\<close>
  element is not among its child nodes, and \<open>clean\<close> says nothing of it.
\<close>

fun clean :: "node \<Rightarrow> bool" where
  "clean (Element tag attrs children) =
     (toUpperCase tag \<notin> set blockedTags \<and> list_all (\<lambda>a. \<not> is_handler a) attrs \<and> list_all clean children)"
| "clean (Template attrs content) = list_all (\<lambda>a. \<not> is_handler a) attrs"
| "clean (Text t) = True"
| "clean (Comment c) = True"

text \<open>
  The visible notice for a blocked tag: a \<^verbatim>\<open>pre\<close> element of class
  \<^verbatim>\<open>blocked-html-warning\<close> whose text begins with the sentence naming the tag.
\<close>

fun is_notice :: "string \<Rightarrow> node \<Rightarrow> bool" where
  "is_notice tag (Element t attrs [Text msg]) =
     (t = ''PRE'' \<and> map_of attrs ''class'' = Some ''blocked-html-warning''
      \<and> startsWith msg (''Blocked insecure <'' @ toLowerCase tag @ ''> element removed.''))"
| "is_notice tag n = False"

text \<open>
  How an input node and the node found in its place afterwards are related: a text node is
  itself; a blocked element has become its notice, a single element with a single text
  inside, so that nothing of what was below the blocked element is left; any other element
  is still there with its tag, without event handlers, with every attribute that is
  neither an event handler nor a URL attribute as it was, and with its non-comment
  children related in the same way, one for one; a \<^verbatim>\<open>template\<close> element is still there,
  its attributes treated alike. Of the content of a \<^verbatim>\<open>template\<close> the relation says
  nothing.
\<close>

fun in_place :: "node \<Rightarrow> node \<Rightarrow> bool" where
  "in_place (Text t) out = (out = Text t)"
| "in_place (Comment c) out = False"
| "in_place (Template attrs content) out =
     (case out of
        Template attrs' content' \<Rightarrow>
          list_all (\<lambda>a. \<not> is_handler a) attrs'
          \<and> filter (\<lambda>a. \<not> is_handler a \<and> \<not> is_url_attr a) attrs'
              = filter (\<lambda>a. \<not> is_handler a \<and> \<not> is_url_attr a) attrs
      | _ \<Rightarrow> False)"
| "in_place (Element tag attrs children) out =
     (if toUpperCase tag \<in> set blockedTags then is_notice tag out
      else (case out of
              Element tag' attrs' children' \<Rightarrow>
                tag' = tag
                \<and> list_all (\<lambda>a. \<not> is_handler a) attrs'
                \<and> filter (\<lambda>a. \<not> is_handler a \<and> \<not> is_url_attr a) attrs'
                    = filter (\<lambda>a. \<not> is_handler a \<and> \<not> is_url_attr a) attrs
                \<and> list_all2 in_place (filter (\<lambda>c. \<not> is_comment c) children) children'
            | _ \<Rightarrow> False))"

text \<open>
  Two counts, to say whether every blocked element has a notice of its own: the elements
  with a blocked tag in a tree, and the notices in a tree, both following child nodes.
\<close>

fun blocked_elements :: "node \<Rightarrow> nat" where
  "blocked_elements (Element tag attrs children) =
     (if toUpperCase tag \<in> set blockedTags then 1 else 0) + sum_list (map blocked_elements children)"
| "blocked_elements n = 0"

fun notices :: "node \<Rightarrow> nat" where
  "notices (Element tag attrs children) =
     (if tag = ''PRE'' \<and> map_of attrs ''class'' = Some ''blocked-html-warning'' then 1 else 0)
       + sum_list (map notices children)"
| "notices n = 0"

subsection \<open>The walk as the source runs it\<close>

text \<open>
  \<^verbatim>\<open>sanitizeNodeTree\<close> edits the tree in place and keeps on a stack the elements it has
  still to visit. The tree is a value here, so an element on the stack is named by its
  position: the child indices that lead to it from the root. \<open>node_at\<close> reads the node at
  a position and \<open>update_at\<close> rewrites it; a position that leads nowhere reads as nothing
  and rewrites nothing.
\<close>

type_synonym path = "nat list"

fun is_element :: "node \<Rightarrow> bool" where
  "is_element (Element tag attrs children) = True"
| "is_element (Template attrs content) = True"
| "is_element n = False"

fun childNodes :: "node \<Rightarrow> node list" where
  "childNodes (Element tag attrs children) = children"
| "childNodes n = []"

fun node_at :: "node \<Rightarrow> path \<Rightarrow> node option" where
  "node_at n [] = Some n"
| "node_at n (i # p) = (if i < length (childNodes n) then node_at (childNodes n ! i) p else None)"

fun update_at :: "(node \<Rightarrow> node) \<Rightarrow> path \<Rightarrow> node \<Rightarrow> node" where
  "update_at f [] n = f n"
| "update_at f (i # p) (Element tag attrs children) =
     (if i < length children
      then Element tag attrs (children[i := update_at f p (children ! i)])
      else Element tag attrs children)"
| "update_at f (i # p) n = n"

text \<open>
  The \<^verbatim>\<open>forEach\<close> over the child nodes removes the comments and pushes the elements in
  document order, so the last element child is on top of the stack (its head here).
  \<open>push_children\<close> gives the positions pushed, for the children that are left.
\<close>

definition push_children :: "path \<Rightarrow> node list \<Rightarrow> path list" where
  "push_children p children =
     rev (map (\<lambda>i. p @ [i]) (filter (\<lambda>i. is_element (children ! i)) [0..<length children]))"

text \<open>
  One turn of the \<^verbatim>\<open>while\<close> loop on the popped position: a node that is no element is
  passed over; a blocked element is replaced by the notice and pushes nothing; any other
  element has its attributes sanitized and its comment children removed, and pushes its
  element children; a \<^verbatim>\<open>template\<close> element, which has no child nodes, has its attributes
  sanitized and pushes nothing. The result is what is pushed and the tree as it is afterwards.
\<close>

definition sanitize_visit :: "(string \<Rightarrow> string option) \<Rightarrow> (node \<Rightarrow> string) \<Rightarrow> path \<Rightarrow> node \<Rightarrow> path list \<times> node" where
  "sanitize_visit protocol outerHTML p tree =
     (case node_at tree p of
        Some (Element tag attrs children) \<Rightarrow>
          (let tagName = toUpperCase tag in
           if tagName \<in> set blockedTags
           then ([], update_at (blocked_warning outerHTML tagName) p tree)
           else (let kept = filter (\<lambda>c. \<not> is_comment c) children in
                 (push_children p kept,
                  update_at (\<lambda>n. Element tag (sanitizeElementAttributes protocol attrs) kept) p tree)))
      | Some (Template attrs content) \<Rightarrow>
          ([], update_at (\<lambda>n. Template (sanitizeElementAttributes protocol attrs) content) p tree)
      | _ \<Rightarrow> ([], tree))"

text \<open>
  The loop runs until the stack is empty. Nothing in its text bounds the number of turns,
  so it is a partial function: \<open>None\<close> is a run that never ends.
\<close>

partial_function (option) sanitize_walk ::
  "(string \<Rightarrow> string option) \<Rightarrow> (node \<Rightarrow> string) \<Rightarrow> path list \<Rightarrow> node \<Rightarrow> node option" where
  "sanitize_walk protocol outerHTML stack tree =
     (case stack of
        [] \<Rightarrow> Some tree
      | p # rest \<Rightarrow>
          (case sanitize_visit protocol outerHTML p tree of
             (pushed, tree') \<Rightarrow> sanitize_walk protocol outerHTML (pushed @ rest) tree'))"

declare sanitize_walk.simps [code]

text \<open>
  The root is the content of a template, a fragment whose children are the top-level
  nodes; it is never on the stack. The first \<^verbatim>\<open>forEach\<close> treats its children as the loop
  treats those of an element.
\<close>

definition sanitizeNodeTree_stack ::
  "(string \<Rightarrow> string option) \<Rightarrow> (node \<Rightarrow> string) \<Rightarrow> node list \<Rightarrow> node list option" where
  "sanitizeNodeTree_stack protocol outerHTML fragment =
     (let kept = filter (\<lambda>c. \<not> is_comment c) fragment in
      map_option childNodes
        (sanitize_walk protocol outerHTML (push_children [] kept) (Element [] [] kept)))"

text \<open>
  \<open>sanitize_each\<close> rewrites the children at the given indices one after the other; the
  proofs use it to follow the tree while the children of one element are visited.
\<close>

definition sanitize_each :: "(node \<Rightarrow> node) \<Rightarrow> nat list \<Rightarrow> node list \<Rightarrow> node list" where
  "sanitize_each f indices children = fold (\<lambda>i ys. ys[i := f (ys ! i)]) indices children"

section \<open>The asynchronous task queue\<close>

subsection \<open>The live document and the collaborators\<close>

text \<open>
  The scheduler touches the displayed document only through
  \<^verbatim>\<open>document.getElementById(id)\<close> and \<^verbatim>\<open>placeholder.outerHTML = ...\<close>. The document is
  therefore a sequence of blocks: a placeholder with its id, or what a placeholder was
  replaced with. An image block records the class of its wrapper, the base64 data, the
  \<^verbatim>\<open>alt\<close> text and the \<^verbatim>\<open>width\<close> in pixels; an error report records the text of the
  red \<^verbatim>\<open>pre\<close> block.
\<close>

datatype block =
    Placeholder string
  | Img string string string int
  | ErrorReport string
  | Markup string

type_synonym document = "block list"

definition getElementById :: "string \<Rightarrow> document \<Rightarrow> bool" where
  "getElementById ident doc = (Placeholder ident \<in> set doc)"

fun set_outerHTML :: "string \<Rightarrow> block \<Rightarrow> document \<Rightarrow> document" where
  "set_outerHTML ident new [] = []"
| "set_outerHTML ident new (b # bs) =
     (if b = Placeholder ident then new # bs else b # set_outerHTML ident new bs)"

text \<open>\<^verbatim>\<open>const placeholder = document.getElementById(id); if (placeholder) placeholder.outerHTML = new\<close>.\<close>

definition replace_placeholder :: "string \<Rightarrow> block \<Rightarrow> document \<Rightarrow> document" where
  "replace_placeholder ident new doc =
     (if getElementById ident doc then set_outerHTML ident new doc else doc)"

text \<open>
  \<^verbatim>\<open>translate(key, substitutions)\<close> is the localization collaborator, a parameter. The
  JavaScript \<^verbatim>\<open>a || b\<close> on strings takes \<^verbatim>\<open>b\<close> when \<^verbatim>\<open>a\<close> is empty.
\<close>

type_synonym translator = "string \<Rightarrow> string list \<Rightarrow> string"

definition or_else :: "string \<Rightarrow> string \<Rightarrow> string" where
  "or_else a b = (if a \<noteq> [] then a else b)"

definition replace_all :: "char \<Rightarrow> string \<Rightarrow> string \<Rightarrow> string" where
  "replace_all c rep s = concat (map (\<lambda>x. if x = c then rep else [x]) s)"

definition escapeHtml :: "string \<Rightarrow> string" where
  "escapeHtml text =
     replace_all (CHR 0x27) ''&#039;''
       (replace_all (CHR 0x22) ''&quot;''
         (replace_all (CHR ''>'') ''&gt;''
           (replace_all (CHR ''<'') ''&lt;''
             (replace_all (CHR ''&'') ''&amp;'' text))))"

subsection \<open>Tasks\<close>

datatype status = Fetching | Ready | Error

text \<open>
  The data handed to a callback: the placeholder id and either the code of a diagram or an
  HTML block, or the source, the original tag and the content (once known) of an SVG image.
\<close>

datatype payload =
    Code string
  | Svg string string "string option"

record task_data =
  data_id :: string
  data_payload :: payload

text \<open>
  What a callback can throw, as the \<^verbatim>\<open>catch\<close> clause of the drain loop tells the values
  apart: an \<^verbatim>\<open>Error\<close> object, or any other value whose \<^verbatim>\<open>message\<close> reads as a string
  (the empty string standing for a missing or falsy one); \<^verbatim>\<open>null\<close> or \<^verbatim>\<open>undefined\<close>,
  of which no property can be read; or a value whose \<^verbatim>\<open>message\<close> is truthy and not a
  string, on which \<^verbatim>\<open>escapeHtml\<close> finds no \<^verbatim>\<open>replace\<close>.
\<close>

datatype thrown =
    Thrown exn
  | Thrown_null
  | Thrown_undefined
  | Thrown_unreadable

text \<open>
  A callback acts on the live document and either completes or throws.
\<close>

type_synonym callback = "task_data \<Rightarrow> document \<Rightarrow> thrown + document"

record task =
  task_id :: string
  task_callback :: callback
  task_data :: task_data
  task_type :: string
  task_status :: status
  task_error :: "exn option"

definition setReady :: "task \<Rightarrow> task" where
  "setReady t = t\<lparr>task_status := Ready\<rparr>"

definition setError :: "exn \<Rightarrow> task \<Rightarrow> task" where
  "setError e t = t\<lparr>task_status := Error, task_error := Some e\<rparr>"

text \<open>
  The state the content script keeps between its functions: the global queue and id
  counter, the live document, what the progress indicator was last told, and the number
  of suspension points (\<^verbatim>\<open>await\<close>) the drain loop has passed. \<open>drained\<close> is not a
  variable of the program: it records, in order, the tasks that \<^verbatim>\<open>splice\<close> took out of
  the queue, so that the order of draining can be stated.
\<close>

record page =
  asyncTaskQueue :: "task list"
  asyncTaskIdCounter :: nat
  live :: document
  progress :: "(nat \<times> nat) option"
  indicator_hidden :: bool
  now :: nat
  drained :: "task list"

subsection \<open>generateAsyncId, createAsyncPlaceholder, asyncTask\<close>

definition decimal_digits :: string where
  "decimal_digits = ''0123456789''"

function toString10 :: "nat \<Rightarrow> string" where
  "toString10 n =
     (if n < 10 then [decimal_digits ! n] else toString10 (n div 10) @ [decimal_digits ! (n mod 10)])"
  by pat_completeness auto
termination
  by (relation "measure (\<lambda>n. n)") auto

declare toString10.simps [simp del]

definition generateAsyncId :: "page \<Rightarrow> string \<times> page" where
  "generateAsyncId pg =
     (let n = asyncTaskIdCounter pg + 1
      in (''async-placeholder-'' @ toString10 n, pg\<lparr>asyncTaskIdCounter := n\<rparr>))"

definition typeLabelKeys :: "string \<rightharpoonup> string" where
  "typeLabelKeys = map_of
     [(''mermaid'', ''async_placeholder_type_mermaid''),
      (''html'', ''async_placeholder_type_html''),
      (''svg'', ''async_placeholder_type_svg'')]"

definition typeLabelFallbacks :: "string \<rightharpoonup> string" where
  "typeLabelFallbacks = map_of
     [(''mermaid'', ''Mermaid diagram''), (''html'', ''HTML chart''), (''svg'', ''SVG image'')]"

definition processingText :: "translator \<Rightarrow> string \<Rightarrow> string \<Rightarrow> string" where
  "processingText translate type description =
     (let typeLabel = (case typeLabelKeys type of Some k \<Rightarrow> translate k [] | None \<Rightarrow> []);
          resolvedTypeLabel =
            or_else typeLabel (or_else (case typeLabelFallbacks type of Some l \<Rightarrow> l | None \<Rightarrow> []) type);
          descriptionSuffix = (if description \<noteq> [] then '': '' @ description else [])
      in or_else (translate ''async_processing_message'' [resolvedTypeLabel, descriptionSuffix])
           (''Processing '' @ resolvedTypeLabel @ descriptionSuffix @ ''...''))"

definition createAsyncPlaceholder :: "translator \<Rightarrow> string \<Rightarrow> string \<Rightarrow> string \<Rightarrow> string" where
  \<open>createAsyncPlaceholder translate ident type description =
     (if type = ''svg'' then
        ''<span id="'' @ ident @ ''" class="async-placeholder '' @ type
          @ ''-placeholder inline-placeholder">'' @ [CHR 0x0A]
          @ ''      <span class="async-loading">'' @ [CHR 0x0A]
          @ ''        <span class="async-spinner"></span>'' @ [CHR 0x0A]
          @ ''        <span class="async-text">'' @ processingText translate type description
          @ ''</span>'' @ [CHR 0x0A]
          @ ''      </span>'' @ [CHR 0x0A]
          @ ''    </span>''
      else
        ''<div id="'' @ ident @ ''" class="async-placeholder '' @ type @ ''-placeholder">'' @ [CHR 0x0A]
          @ ''    <div class="async-loading">'' @ [CHR 0x0A]
          @ ''      <div class="async-spinner"></div>'' @ [CHR 0x0A]
          @ ''      <div class="async-text">'' @ processingText translate type description
          @ ''</div>'' @ [CHR 0x0A]
          @ ''    </div>'' @ [CHR 0x0A]
          @ ''  </div>'')\<close>

text \<open>
  \<^verbatim>\<open>asyncTask(callback, data, type, description, initialStatus)\<close>: a fresh id, the task
  pushed at the end of the queue, and the placeholder markup. The result is the task, the
  \<^verbatim>\<open>value\<close> of the placeholder node and the new state.
\<close>

definition asyncTask ::
  "translator \<Rightarrow> callback \<Rightarrow> payload \<Rightarrow> string \<Rightarrow> string \<Rightarrow> status \<Rightarrow> page \<Rightarrow> task \<times> string \<times> page" where
  "asyncTask translate callback dat type description initialStatus pg =
     (let (placeholderId, pg1) = generateAsyncId pg;
          t = \<lparr>task_id = placeholderId, task_callback = callback,
               task_data = \<lparr>data_id = placeholderId, data_payload = dat\<rparr>,
               task_type = type, task_status = initialStatus, task_error = None\<rparr>
      in (t, createAsyncPlaceholder translate placeholderId type description,
          pg1\<lparr>asyncTaskQueue := asyncTaskQueue pg1 @ [t]\<rparr>))"

subsection \<open>The side fetches\<close>

text \<open>
  A task created as \<^verbatim>\<open>fetching\<close> has a retrieval in flight, started by whoever created
  it. When the retrieval settles it stores the content and calls \<^verbatim>\<open>setReady\<close>, or calls
  \<^verbatim>\<open>setError\<close>. The retrievals are a parameter of the model: for a task id, the number
  of suspension points of the drain loop after which it has settled, and its outcome;
  \<open>None\<close> when it never settles.
\<close>

datatype fetch_outcome = Content string | Failure exn

type_synonym fetches = "string \<Rightarrow> (nat \<times> fetch_outcome) option"

fun store_content :: "string \<Rightarrow> task_data \<Rightarrow> task_data" where
  "store_content c d =
     (case data_payload d of
        Svg src tag old \<Rightarrow> d\<lparr>data_payload := Svg src tag (Some c)\<rparr>
      | Code code \<Rightarrow> d)"

fun settle :: "fetch_outcome \<Rightarrow> task \<Rightarrow> task" where
  "settle (Content c) t = setReady (t\<lparr>task_data := store_content c (task_data t)\<rparr>)"
| "settle (Failure e) t = setError e t"

definition deliver :: "fetches \<Rightarrow> nat \<Rightarrow> task \<Rightarrow> task" where
  "deliver pending n t =
     (if task_status t = Fetching then
        (case pending (task_id t) of
           Some (due, outcome) \<Rightarrow> if due \<le> n then settle outcome t else t
         | None \<Rightarrow> t)
      else t)"

text \<open>One suspension point: the retrievals that are due by now reach their tasks.\<close>

definition await :: "fetches \<Rightarrow> page \<Rightarrow> page" where
  "await pending pg =
     (let n = now pg + 1
      in pg\<lparr>now := n, asyncTaskQueue := map (deliver pending n) (asyncTaskQueue pg)\<rparr>)"

subsection \<open>processAsyncTasks\<close>

text \<open>\<^verbatim>\<open>Array.prototype.findIndex\<close>; \<open>None\<close> is the source's \<^verbatim>\<open>-1\<close>.\<close>

fun findIndex :: "('a \<Rightarrow> bool) \<Rightarrow> 'a list \<Rightarrow> nat option" where
  "findIndex p [] = None"
| "findIndex p (x # xs) =
     (if p x then Some 0 else (case findIndex p xs of None \<Rightarrow> None | Some i \<Rightarrow> Some (Suc i)))"

definition drainable :: "task \<Rightarrow> bool" where
  "drainable t = (task_status t = Ready \<or> task_status t = Error)"

definition updateProgress :: "nat \<Rightarrow> nat \<Rightarrow> page \<Rightarrow> page" where
  "updateProgress completed totalTasks pg = pg\<lparr>progress := Some (completed, totalTasks)\<rparr>"

definition error_pre :: "string \<Rightarrow> block" where
  "error_pre localizedError = ErrorReport localizedError"

text \<open>The branch for a task in status \<^verbatim>\<open>error\<close>: no callback, no suspension point.\<close>

definition report_task_error :: "translator \<Rightarrow> task \<Rightarrow> document \<Rightarrow> document" where
  "report_task_error translate t doc =
     (let unknownError = translate ''async_unknown_error'' [];
          errorDetail = escapeHtml
            (or_else (case task_error t of Some e \<Rightarrow> message e | None \<Rightarrow> []) unknownError);
          localizedError = translate ''async_processing_error'' [errorDetail]
      in replace_placeholder (task_id t) (error_pre localizedError) doc)"

text \<open>
  The \<^verbatim>\<open>catch\<close> clause of the loop body. It reads \<^verbatim>\<open>error.message\<close> only when the
  placeholder is still in the document, and then it throws a \<^verbatim>\<open>TypeError\<close> itself
  when the thrown value is \<^verbatim>\<open>null\<close> or \<^verbatim>\<open>undefined\<close>, or when \<^verbatim>\<open>escapeHtml\<close>
  is handed a message that is not a string. The messages are worded as the engine of the
  browser words them.
\<close>

definition report_thrown :: "translator \<Rightarrow> task \<Rightarrow> thrown \<Rightarrow> document \<Rightarrow> exn + document" where
  "report_thrown translate t e doc =
     (if getElementById (task_id t) doc then
        (case e of
           Thrown_null \<Rightarrow> Inl (JsError ''Cannot read properties of null (reading 'message')'')
         | Thrown_undefined \<Rightarrow> Inl (JsError ''Cannot read properties of undefined (reading 'message')'')
         | Thrown_unreadable \<Rightarrow> Inl (JsError ''text.replace is not a function'')
         | Thrown err \<Rightarrow>
             (let errorDetail = escapeHtml (or_else (message err) []);
                  localizedError = translate ''async_task_processing_error'' [errorDetail]
              in Inr (set_outerHTML (task_id t) (error_pre localizedError) doc)))
      else Inr doc)"

datatype 'a loop = Break 'a | Continue 'a

text \<open>
  One turn of the \<^verbatim>\<open>while\<close> loop, entered with a non-empty queue. The local variable
  \<^verbatim>\<open>completedTasks\<close> travels with the state. What the \<^verbatim>\<open>catch\<close> clause throws
  leaves the loop and the function: the turn is then \<open>Inl\<close>.
\<close>

definition iteration ::
  "translator \<Rightarrow> fetches \<Rightarrow> nat \<Rightarrow> nat \<times> page \<Rightarrow> exn + (nat \<times> page) loop" where
  "iteration translate pending totalTasks s =
     (let completedTasks = fst s; pg = snd s; q = asyncTaskQueue pg in
      case findIndex drainable q of
        Some readyTaskIndex \<Rightarrow>
          (let t = q ! readyTaskIndex;
               pg1 = pg\<lparr>asyncTaskQueue := take readyTaskIndex q @ drop (Suc readyTaskIndex) q,
                        drained := drained pg @ [t]\<rparr>
           in if task_status t = Error then
                Inr (Continue (completedTasks + 1,
                  updateProgress (completedTasks + 1) totalTasks
                    (pg1\<lparr>live := report_task_error translate t (live pg1)\<rparr>)))
              else
                (case task_callback t (task_data t) (live pg1) of
                   Inr doc \<Rightarrow>
                     Inr (Continue (completedTasks + 1,
                       updateProgress (completedTasks + 1) totalTasks
                         (await pending (pg1\<lparr>live := doc\<rparr>))))
                 | Inl e \<Rightarrow>
                     (case report_thrown translate t e (live pg1) of
                        Inl err \<Rightarrow> Inl err
                      | Inr doc \<Rightarrow>
                          Inr (Continue (completedTasks + 1,
                            updateProgress (completedTasks + 1) totalTasks
                              (await pending (pg1\<lparr>live := doc\<rparr>)))))))
      | None \<Rightarrow>
          (if filter (\<lambda>t. task_status t = Fetching) q = [] then Inr (Break (completedTasks, pg))
           else Inr (Continue (completedTasks, await pending pg))))"

text \<open>
  The loop. Nothing in its text bounds the number of turns, so it is a partial function:
  \<open>None\<close> is a run that never ends, \<open>Some (Inl e)\<close> one that ends by throwing \<open>e\<close>.
\<close>

partial_function (option) drainLoop ::
  "translator \<Rightarrow> fetches \<Rightarrow> nat \<Rightarrow> nat \<times> page \<Rightarrow> (exn + nat \<times> page) option" where
  "drainLoop translate pending totalTasks s =
     (if asyncTaskQueue (snd s) = [] then Some (Inr s)
      else (case iteration translate pending totalTasks s of
              Inl e \<Rightarrow> Some (Inl e)
            | Inr (Break r) \<Rightarrow> Some (Inr r)
            | Inr (Continue s') \<Rightarrow> drainLoop translate pending totalTasks s'))"

declare drainLoop.simps [code]

text \<open>
  \<^verbatim>\<open>processAsyncTasks\<close>: the promise it returns is fulfilled (\<open>Inr\<close>, with the state it
  leaves) or rejected (\<open>Inl\<close>); the indicator is hidden only on the way out of the loop.
\<close>

definition processAsyncTasks :: "translator \<Rightarrow> fetches \<Rightarrow> page \<Rightarrow> (exn + page) option" where
  "processAsyncTasks translate pending pg =
     (if asyncTaskQueue pg = [] then Some (Inr pg)
      else
        (let totalTasks = length (asyncTaskQueue pg);
             pg1 = updateProgress 0 totalTasks (pg\<lparr>indicator_hidden := False\<rparr>)
         in case drainLoop translate pending totalTasks (0, pg1) of
              None \<Rightarrow> None
            | Some (Inl e) \<Rightarrow> Some (Inl e)
            | Some (Inr r) \<Rightarrow> Some (Inr ((snd r)\<lparr>indicator_hidden := True\<rparr>))))"

subsection \<open>Draining, as the specification speaks of it\<close>

text \<open>
  To drain a task is to put its error report in the place of its placeholder when its
  status is \<^verbatim>\<open>error\<close>, and otherwise to run its callback on its data, what the callback
  throws being reported in the place of the placeholder. \<open>drain\<close> is the document after
  that, or what the report itself throws; \<open>drain_all\<close> drains one task after the other.
\<close>

definition drain :: "translator \<Rightarrow> task \<Rightarrow> document \<Rightarrow> exn + document" where
  "drain translate t doc =
     (if task_status t = Error then Inr (report_task_error translate t doc)
      else (case task_callback t (task_data t) doc of
              Inr doc' \<Rightarrow> Inr doc'
            | Inl e \<Rightarrow> report_thrown translate t e doc))"

fun drain_all :: "translator \<Rightarrow> task list \<Rightarrow> document \<Rightarrow> exn + document" where
  "drain_all translate [] doc = Inr doc"
| "drain_all translate (t # ts) doc =
     (case drain translate t doc of
        Inl e \<Rightarrow> Inl e
      | Inr doc' \<Rightarrow> drain_all translate ts doc')"

text \<open>
  A task as its retrieval leaves it: a task that is not \<^verbatim>\<open>fetching\<close> is left alone, and
  a \<^verbatim>\<open>fetching\<close> one has the outcome of its retrieval, if it has one.
\<close>

definition settled :: "fetches \<Rightarrow> task \<Rightarrow> task" where
  "settled pending t =
     (if task_status t = Fetching then
        (case pending (task_id t) of Some (due, outcome) \<Rightarrow> settle outcome t | None \<Rightarrow> t)
      else t)"

text \<open>A value the \<^verbatim>\<open>catch\<close> clause can report: one whose message reads as a string.\<close>

fun reportable :: "thrown \<Rightarrow> bool" where
  "reportable (Thrown err) = True"
| "reportable e = False"
section \<open>The rasterization callbacks\<close>

text \<open>
  The renderer (\<^verbatim>\<open>ExtensionRenderer\<close>) is a collaborator and a parameter of the model. A
  call either rejects or resolves with a result object, which may be missing
  (\<^verbatim>\<open>undefined\<close>). Of the result the callbacks read \<^verbatim>\<open>base64\<close>, \<^verbatim>\<open>width\<close> and
  \<^verbatim>\<open>error\<close>; the width is the pixel width of the image, an integer.
\<close>

record png =
  png_base64 :: "string option"
  png_width :: int
  png_error :: "string option"

record renderer =
  renderMermaidToPng :: "string \<Rightarrow> exn + png option"
  renderHtmlToPng :: "string \<Rightarrow> exn + png option"
  renderSvgToPng :: "string \<Rightarrow> exn + png option"

text \<open>
  \<^verbatim>\<open>Math.round\<close> rounds to the nearest integer, a tie going up. The quotient of an
  integer by four is exact in JavaScript's numbers, so the rational quotient is the value
  the source rounds.
\<close>

definition math_round :: "rat \<Rightarrow> int" where
  "math_round x = \<lfloor>x + 1 / 2\<rfloor>"

definition displayWidth :: "int \<Rightarrow> int" where
  "displayWidth width = math_round (of_int width / 4)"

text \<open>A template literal prints a missing string as \<^verbatim>\<open>undefined\<close>.\<close>

fun interpolate :: "string option \<Rightarrow> string" where
  "interpolate None = ''undefined''"
| "interpolate (Some s) = s"

fun payload_code :: "payload \<Rightarrow> string" where
  "payload_code (Code code) = code"
| "payload_code (Svg src tag content) = []"

subsection \<open>The callback of remarkMermaidToPng\<close>

definition mermaid_try :: "renderer \<Rightarrow> task_data \<Rightarrow> document \<Rightarrow> exn + document" where
  "mermaid_try r d doc =
     (case renderMermaidToPng r (payload_code (data_payload d)) of
        Inl e \<Rightarrow> Inl e
      | Inr pngResult \<Rightarrow>
          if getElementById (data_id d) doc then
            (case deref pngResult of
               Inl e \<Rightarrow> Inl e
             | Inr p \<Rightarrow>
                 Inr (set_outerHTML (data_id d)
                        (Img ''mermaid-diagram'' (interpolate (png_base64 p)) ''Mermaid diagram''
                           (displayWidth (png_width p)))
                        doc))
          else Inr doc)"

definition mermaid_callback :: "renderer \<Rightarrow> translator \<Rightarrow> callback" where
  "mermaid_callback r translate d doc =
     (case mermaid_try r d doc of
        Inr doc' \<Rightarrow> Inr doc'
      | Inl e \<Rightarrow>
          (let errorDetail = escapeHtml (or_else (message e) []);
               localizedError = or_else (translate ''async_mermaid_error'' [errorDetail])
                                  (''Mermaid error: '' @ errorDetail)
           in Inr (replace_placeholder (data_id d) (error_pre localizedError) doc)))"

subsection \<open>The callback of remarkHtmlToPng\<close>

definition truncated_snippet :: "string \<Rightarrow> string" where
  "truncated_snippet code =
     escapeHtml (if length code > 500 then take 500 code @ ''...'' else code)"

definition html_error_block :: "translator \<Rightarrow> string \<Rightarrow> string \<Rightarrow> block" where
  "html_error_block translate reason code =
     (let errorDetail = escapeHtml reason;
          localizedError = or_else (translate ''async_html_convert_error'' [errorDetail])
                             (''HTML conversion error: '' @ errorDetail)
      in error_pre (localizedError @ [CHR 0x0A, CHR 0x0A] @ truncated_snippet code))"

definition html_try :: "renderer \<Rightarrow> translator \<Rightarrow> task_data \<Rightarrow> document \<Rightarrow> exn + document" where
  "html_try r translate d doc =
     (let code = payload_code (data_payload d) in
      case renderHtmlToPng r code of
        Inl e \<Rightarrow> Inl e
      | Inr pngResult \<Rightarrow>
          if \<not> getElementById (data_id d) doc then Inr doc
          else
            (let renderedBase64 =
                   (case pngResult of
                      None \<Rightarrow> []
                    | Some p \<Rightarrow> if truthy (png_base64 p) then trim (the (png_base64 p)) else []);
                 isLikelyPng = startsWith renderedBase64 ''iVBOR'';
                 failed = (case pngResult of None \<Rightarrow> True | Some p \<Rightarrow> truthy (png_error p))
             in if failed \<or> renderedBase64 = [] \<or> \<not> isLikelyPng then
                  (let fallbackReason =
                         (if failed then
                            or_else (case pngResult of None \<Rightarrow> [] | Some p \<Rightarrow> (case png_error p of None \<Rightarrow> [] | Some m \<Rightarrow> m))
                              ''Renderer returned empty image data''
                          else if renderedBase64 = [] then ''Renderer returned empty image data''
                          else ''Renderer returned invalid image data'')
                   in Inr (set_outerHTML (data_id d) (html_error_block translate fallbackReason code) doc))
                else
                  (case pngResult of
                     None \<Rightarrow> Inr doc
                   | Some p \<Rightarrow>
                       Inr (set_outerHTML (data_id d)
                              (Img ''html-diagram'' renderedBase64 ''HTML diagram''
                                 (displayWidth (png_width p)))
                              doc))))"

definition html_callback :: "renderer \<Rightarrow> translator \<Rightarrow> callback" where
  "html_callback r translate d doc =
     (case html_try r translate d doc of
        Inr doc' \<Rightarrow> Inr doc'
      | Inl e \<Rightarrow>
          Inr (replace_placeholder (data_id d)
                 (html_error_block translate (or_else (message e) []) (payload_code (data_payload d)))
                 doc))"

subsection \<open>The callback of processSvgImages\<close>

fun payload_src :: "payload \<Rightarrow> string" where
  "payload_src (Svg src tag content) = src"
| "payload_src (Code code) = []"

fun payload_svgContent :: "payload \<Rightarrow> string option" where
  "payload_svgContent (Svg src tag content) = content"
| "payload_svgContent (Code code) = None"

definition svg_try :: "renderer \<Rightarrow> task_data \<Rightarrow> document \<Rightarrow> exn + document" where
  "svg_try r d doc =
     (if \<not> truthy (payload_svgContent (data_payload d)) then Inl (JsError ''No SVG content available'')
      else
        (case renderSvgToPng r (the (payload_svgContent (data_payload d))) of
           Inl e \<Rightarrow> Inl e
         | Inr pngResult \<Rightarrow>
             if getElementById (data_id d) doc then
               (case deref pngResult of
                  Inl e \<Rightarrow> Inl e
                | Inr p \<Rightarrow>
                    Inr (set_outerHTML (data_id d)
                           (Img ''svg-diagram'' (interpolate (png_base64 p)) ''SVG diagram''
                              (displayWidth (png_width p)))
                           doc))
             else Inr doc))"

definition svg_callback :: "renderer \<Rightarrow> callback" where
  \<open>svg_callback r d doc =
     (case svg_try r d doc of
        Inr doc' \<Rightarrow> Inr doc'
      | Inl e \<Rightarrow>
          Inr (replace_placeholder (data_id d)
                 (error_pre (''SVG Error: Cannot load file "'' @ escapeHtml (payload_src (data_payload d))
                             @ ''" - '' @ escapeHtml (message e)))
                 doc))\<close>

section \<open>Regular expressions\<close>

text \<open>
  The patterns of the content script are built from single-character tests, sequence,
  alternative, the greedy star and the greedy option. \<open>ends r s\<close> lists what is left of
  \<open>s\<close> after each way \<open>r\<close> can match a prefix of it, in the order in which a backtracking
  matcher tries them: the first element is the match the engine reports when nothing after
  \<open>r\<close> rejects it. An iteration of a star that consumes nothing is not repeated.
\<close>

datatype rx =
    Atom "char \<Rightarrow> bool"
  | Eps
  | Seq rx rx
  | Alt rx rx
  | Star rx
  | Opt rx

function ends :: "rx \<Rightarrow> string \<Rightarrow> string list" where
  "ends (Atom p) s = (case s of [] \<Rightarrow> [] | x # xs \<Rightarrow> if p x then [xs] else [])"
| "ends Eps s = [s]"
| "ends (Seq a b) s = concat (map (ends b) (ends a s))"
| "ends (Alt a b) s = ends a s @ ends b s"
| "ends (Star a) s =
     concat (map (\<lambda>s'. if length s' < length s then ends (Star a) s' else []) (ends a s)) @ [s]"
| "ends (Opt a) s = ends a s @ [s]"
  by pat_completeness auto
termination
  by (relation "measures [\<lambda>(r, s). size r, \<lambda>(r, s). length s]") auto

declare ends.simps(5) [simp del]

text \<open>\<^verbatim>\<open>a+\<close>, a character under the \<^verbatim>\<open>i\<close> flag, a string under the \<^verbatim>\<open>i\<close> flag, \<^verbatim>\<open>\s\<close>, \<^verbatim>\<open>[^c]\<close>.\<close>

definition plus :: "rx \<Rightarrow> rx" where
  "plus a = Seq a (Star a)"

definition ci :: "char \<Rightarrow> rx" where
  "ci c = Atom (\<lambda>x. toLowerChar x = toLowerChar c)"

fun str_ci :: "string \<Rightarrow> rx" where
  "str_ci [] = Eps"
| "str_ci (c # cs) = Seq (ci c) (str_ci cs)"

definition space :: rx where
  "space = Atom is_ws"

definition not_chr :: "char \<Rightarrow> rx" where
  "not_chr c = Atom (\<lambda>x. x \<noteq> c)"

text \<open>
  A pattern with one capturing group is given as the part before the group, the group and
  the part after it. The match at the start of \<open>s\<close> is the first way through the three
  parts; its result is the matched text and the captured text.
\<close>

definition match_here :: "rx \<Rightarrow> rx \<Rightarrow> rx \<Rightarrow> string \<Rightarrow> (string \<times> string) option" where
  "match_here lead grp trail s =
     (case concat (map (\<lambda>e1. concat (map (\<lambda>e2. map (\<lambda>e3. (e1, e2, e3)) (ends trail e2))
                                        (ends grp e1)))
                       (ends lead s)) of
        [] \<Rightarrow> None
      | (e1, e2, e3) # rest \<Rightarrow> Some (take (length s - length e3) s, take (length e1 - length e2) e1))"

text \<open>
  The search of \<^verbatim>\<open>exec\<close>: the match at the first position, counted from \<open>i\<close>, where there
  is one; \<open>s\<close> is the subject from position \<open>i\<close> on.
\<close>

fun search :: "(string \<Rightarrow> 'a option) \<Rightarrow> string \<Rightarrow> nat \<Rightarrow> (nat \<times> 'a) option" where
  "search m [] i = (case m [] of None \<Rightarrow> None | Some r \<Rightarrow> Some (i, r))"
| "search m (x # xs) i = (case m (x # xs) of None \<Rightarrow> search m xs (Suc i) | Some r \<Rightarrow> Some (i, r))"

text \<open>\<^verbatim>\<open>regex.exec(subject)\<close> for a global pattern whose \<^verbatim>\<open>lastIndex\<close> is given.\<close>

definition exec :: "(string \<Rightarrow> 'a option) \<Rightarrow> string \<Rightarrow> nat \<Rightarrow> (nat \<times> 'a) option" where
  "exec m subject lastIndex =
     (if lastIndex > length subject then None else search m (drop lastIndex subject) lastIndex)"

text \<open>\<^verbatim>\<open>/^r$/.test(s)\<close>: some way for \<open>r\<close> to match all of \<open>s\<close>.\<close>

definition test_whole :: "rx \<Rightarrow> string \<Rightarrow> bool" where
  "test_whole r s = ([] \<in> set (ends r s))"

section \<open>The extraction pass\<close>

text \<open>
  The browser functions the extraction code calls, as one parameter: the URL parser of
  \<^verbatim>\<open>isSafeUrl\<close>, the serializer and the parser behind \<^verbatim>\<open>outerHTML\<close> and
  \<^verbatim>\<open>innerHTML\<close>, \<^verbatim>\<open>atob\<close>, \<^verbatim>\<open>decodeURIComponent\<close>, and
  \<^verbatim>\<open>new URL(src, window.location.href).href\<close>. Those that can throw return a sum.
\<close>

record platform =
  url_protocol :: "string \<Rightarrow> string option"
  dom_outerHTML :: "node \<Rightarrow> string"
  dom_parseHTML :: "string \<Rightarrow> exn + node list"
  dom_innerHTML :: "node list \<Rightarrow> string"
  atob :: "string \<Rightarrow> exn + string"
  decodeURIComponent :: "string \<Rightarrow> exn + string"
  absoluteUrl :: "string \<Rightarrow> exn + string"

subsection \<open>The document tree\<close>

text \<open>
  Of the parsed markdown tree the plugins read the node type, the \<^verbatim>\<open>value\<close> of an
  \<^verbatim>\<open>html\<close> node, the \<^verbatim>\<open>lang\<close> and \<^verbatim>\<open>value\<close> of a \<^verbatim>\<open>code\<close> node, and the children
  of a parent. \<^verbatim>\<open>visit\<close> walks the tree in document order, a node before its children.
\<close>

datatype mdast =
    HtmlNode string
  | CodeNode "string option" string
  | ParentNode string "mdast list"
  | LeafNode string

subsection \<open>remarkHtmlToPng\<close>

text \<open>\<^verbatim>\<open>/^(?:<br\s*\/?>(?:\s|&nbsp;)*)+$/i\<close>\<close>

definition br_only :: rx where
  "br_only =
     plus (Seq (str_ci ''<br'')
            (Seq (Star space)
              (Seq (Opt (ci (CHR ''/'')))
                (Seq (ci (CHR ''>''))
                  (Star (Alt space (str_ci ''&nbsp;'')))))))"

text \<open>
  The visitor of one \<^verbatim>\<open>html\<close> node: \<open>None\<close> when it returns without registering a
  task, otherwise the placeholder markup that replaces the node's value and the new state.
\<close>

definition html_visitor ::
  "platform \<Rightarrow> translator \<Rightarrow> renderer \<Rightarrow> string \<Rightarrow> page \<Rightarrow> (string \<times> page) option" where
  "html_visitor pf translate r val pg =
     (let htmlContent = trim val in
      if htmlContent = [] then None
      else if test_whole br_only htmlContent then None
      else
        (let sanitizedHtml =
               sanitizeRenderedHtml (url_protocol pf) (dom_outerHTML pf) (dom_parseHTML pf) (dom_innerHTML pf)
                 htmlContent
         in if sanitizedHtml = [] \<or> length (filter (\<lambda>c. \<not> is_ws c) sanitizedHtml) \<le> 0 then None
            else
              (let (t, placeholder, pg') =
                     asyncTask translate (html_callback r translate) (Code sanitizedHtml)
                       ''html'' [] Ready pg
               in Some (placeholder, pg'))))"

fun remarkHtmlToPng ::
  "platform \<Rightarrow> translator \<Rightarrow> renderer \<Rightarrow> mdast \<Rightarrow> page \<Rightarrow> mdast \<times> page"
and remarkHtmlToPng_children ::
  "platform \<Rightarrow> translator \<Rightarrow> renderer \<Rightarrow> mdast list \<Rightarrow> page \<Rightarrow> mdast list \<times> page" where
  "remarkHtmlToPng pf translate r (HtmlNode val) pg =
     (case html_visitor pf translate r val pg of
        None \<Rightarrow> (HtmlNode val, pg)
      | Some (placeholder, pg') \<Rightarrow> (HtmlNode placeholder, pg'))"
| "remarkHtmlToPng pf translate r (CodeNode lang val) pg = (CodeNode lang val, pg)"
| "remarkHtmlToPng pf translate r (LeafNode ty) pg = (LeafNode ty, pg)"
| "remarkHtmlToPng pf translate r (ParentNode ty children) pg =
     (let (children', pg') = remarkHtmlToPng_children pf translate r children pg
      in (ParentNode ty children', pg'))"
| "remarkHtmlToPng_children pf translate r [] pg = ([], pg)"
| "remarkHtmlToPng_children pf translate r (n # ns) pg =
     (let (n', pg1) = remarkHtmlToPng pf translate r n pg;
          (ns', pg2) = remarkHtmlToPng_children pf translate r ns pg1
      in (n' # ns', pg2))"

subsection \<open>remarkMermaidToPng\<close>

fun remarkMermaidToPng ::
  "translator \<Rightarrow> renderer \<Rightarrow> mdast \<Rightarrow> page \<Rightarrow> mdast \<times> page"
and remarkMermaidToPng_children ::
  "translator \<Rightarrow> renderer \<Rightarrow> mdast list \<Rightarrow> page \<Rightarrow> mdast list \<times> page" where
  "remarkMermaidToPng translate r (CodeNode lang val) pg =
     (if lang = Some ''mermaid'' then
        (let (t, placeholder, pg') =
               asyncTask translate (mermaid_callback r translate) (Code val) ''mermaid'' [] Ready pg
         in (HtmlNode placeholder, pg'))
      else (CodeNode lang val, pg))"
| "remarkMermaidToPng translate r (HtmlNode val) pg = (HtmlNode val, pg)"
| "remarkMermaidToPng translate r (LeafNode ty) pg = (LeafNode ty, pg)"
| "remarkMermaidToPng translate r (ParentNode ty children) pg =
     (let (children', pg') = remarkMermaidToPng_children translate r children pg
      in (ParentNode ty children', pg'))"
| "remarkMermaidToPng_children translate r [] pg = ([], pg)"
| "remarkMermaidToPng_children translate r (n # ns) pg =
     (let (n', pg1) = remarkMermaidToPng translate r n pg;
          (ns', pg2) = remarkMermaidToPng_children translate r ns pg1
      in (n' # ns', pg2))"

subsection \<open>processSvgImages: finding the tags\<close>

text \<open>\<^verbatim>\<open>/<img\s+[^>]*src="([^"]+\.svg)"[^>]*>/gi\<close>, around its capturing group.\<close>

definition img_lead :: rx where
  \<open>img_lead =
     Seq (str_ci ''<img'') (Seq (plus space) (Seq (Star (not_chr (CHR ''>''))) (str_ci ''src="'')))\<close>

definition img_group :: rx where
  "img_group = Seq (plus (not_chr (CHR 0x22))) (str_ci ''.svg'')"

definition img_trail :: rx where
  "img_trail = Seq (ci (CHR 0x22)) (Seq (Star (not_chr (CHR ''>''))) (ci (CHR ''>'')))"

definition imgRegex :: "string \<Rightarrow> (string \<times> string) option" where
  "imgRegex = match_here img_lead img_group img_trail"

record svg_match =
  fullMatch :: string
  src :: string
  index :: nat

text \<open>
  The collecting loop calls \<^verbatim>\<open>exec\<close> until it answers \<^verbatim>\<open>null\<close>, each call starting
  where the previous match ended. It ends because a match of this pattern is never empty
  and lies inside the subject; these facts about the matcher come first.
\<close>

lemma ends_suffix: "e \<in> set (ends r s) \<Longrightarrow> suffix e s"
proof (induction r s arbitrary: e rule: ends.induct)
  case (1 p s)
  then show ?case by (cases s) (auto simp: suffix_Cons split: if_splits)
next
  case (2 s)
  then show ?case by simp
next
  case (3 a b s)
  from "3.prems" obtain e1 where e1: "e1 \<in> set (ends a s)" and e: "e \<in> set (ends b e1)"
    by auto
  from "3.IH"(1) [OF e1] "3.IH"(2) [OF e1 e] show ?case
    by (rule suffix_order.trans [rotated])
next
  case (4 a b s)
  then show ?case by auto
next
  case (5 a s)
  from "5.prems" have "e \<in> set (concat (map (\<lambda>s'. if length s' < length s then ends (Star a) s' else [])
                                      (ends a s)) @ [s])"
    unfolding ends.simps(5) [of a s] .
  then consider "e = s"
    | s' where "s' \<in> set (ends a s)" "length s' < length s" "e \<in> set (ends (Star a) s')"
    by (auto split: if_splits)
  then show ?case
  proof cases
    case 1
    then show ?thesis by simp
  next
    case 2
    from "5.IH"(1) [OF 2(1)] "5.IH"(2) [OF 2(1,2,3)] show ?thesis
      by (rule suffix_order.trans [rotated])
  qed
next
  case (6 a s)
  then show ?case by auto
qed

lemma ends_shorter_Seq:
  assumes "\<And>e. e \<in> set (ends a s) \<Longrightarrow> length e < length s" and "e \<in> set (ends (Seq a b) s)"
  shows "length e < length s"
proof -
  from assms(2) obtain e1 where e1: "e1 \<in> set (ends a s)" and e: "e \<in> set (ends b e1)"
    by auto
  from ends_suffix [OF e] have "length e \<le> length e1" by (rule suffix_length_le)
  with assms(1) [OF e1] show ?thesis by simp
qed

lemma ends_shorter_Atom: "e \<in> set (ends (Atom p) s) \<Longrightarrow> length e < length s"
  by (cases s) (auto split: if_splits)

lemma img_lead_shorter: "e \<in> set (ends img_lead s) \<Longrightarrow> length e < length s"
  unfolding img_lead_def str_ci.simps ci_def
  by (erule ends_shorter_Seq [rotated], erule ends_shorter_Seq [rotated], erule ends_shorter_Atom)

lemma match_here_sound:
  assumes "match_here lead grp trail s = Some (full, cap)"
  shows "\<exists>e1 e3. e1 \<in> set (ends lead s) \<and> length e3 \<le> length e1 \<and> s = full @ e3"
proof -
  let ?all = "concat (map (\<lambda>e1. concat (map (\<lambda>e2. map (\<lambda>e3. (e1, e2, e3)) (ends trail e2))
                                        (ends grp e1))) (ends lead s))"
  from assms obtain e1 e2 e3 rest where first: "?all = (e1, e2, e3) # rest"
    and full: "full = take (length s - length e3) s"
    by (auto simp: match_here_def split: list.splits)
  have "(e1, e2, e3) \<in> set ?all" by (simp add: first)
  then have m1: "e1 \<in> set (ends lead s)" and m2: "e2 \<in> set (ends grp e1)"
    and m3: "e3 \<in> set (ends trail e2)"
    by auto
  from ends_suffix [OF m2] ends_suffix [OF m3] have "suffix e3 e1"
    by (rule suffix_order.trans [rotated])
  then have le: "length e3 \<le> length e1" by (rule suffix_length_le)
  from ends_suffix [OF m1] \<open>suffix e3 e1\<close> have "suffix e3 s"
    by (rule suffix_order.trans [rotated])
  then obtain p where p: "s = p @ e3" by (auto simp: suffix_def)
  then have "full = p" by (simp add: full)
  with m1 le p show ?thesis by blast
qed

lemma imgRegex_sound:
  assumes "imgRegex s = Some (full, cap)"
  shows "full \<noteq> [] \<and> (\<exists>rest. s = full @ rest)"
proof -
  from match_here_sound [OF assms [unfolded imgRegex_def]] obtain e1 e3 where
    "e1 \<in> set (ends img_lead s)" "length e3 \<le> length e1" "s = full @ e3"
    by blast
  moreover from this(1) have "length e1 < length s" by (rule img_lead_shorter)
  ultimately show ?thesis by auto
qed

lemma search_sound:
  "search m s i = Some (j, r) \<Longrightarrow> i \<le> j \<and> j - i \<le> length s \<and> m (drop (j - i) s) = Some r"
proof (induction s arbitrary: i)
  case Nil
  then show ?case by (auto split: option.splits)
next
  case (Cons x xs)
  show ?case
  proof (cases "m (x # xs)")
    case None
    with Cons.prems have "search m xs (Suc i) = Some (j, r)" by simp
    from Cons.IH [OF this] have a: "Suc i \<le> j" and b: "j - Suc i \<le> length xs"
      and c: "m (drop (j - Suc i) xs) = Some r" by auto
    from a have "j - i = Suc (j - Suc i)" by simp
    with a b c show ?thesis by simp
  next
    case (Some a)
    with Cons.prems show ?thesis by simp
  qed
qed

lemma exec_sound:
  assumes "exec m subject lastIndex = Some (j, r)"
  shows "lastIndex \<le> j \<and> j \<le> length subject \<and> m (drop j subject) = Some r"
proof -
  from assms have le: "lastIndex \<le> length subject"
    and s: "search m (drop lastIndex subject) lastIndex = Some (j, r)"
    by (auto simp: exec_def split: if_splits)
  from search_sound [OF s] le show ?thesis by auto
qed

lemma exec_imgRegex_advances:
  assumes "exec imgRegex html lastIndex = Some (i, full, cap)"
  shows "lastIndex \<le> i \<and> full \<noteq> [] \<and> i + length full \<le> length html
         \<and> take (length full) (drop i html) = full"
proof -
  from exec_sound [OF assms] have le: "lastIndex \<le> i" "i \<le> length html"
    and m: "imgRegex (drop i html) = Some (full, cap)" by auto
  from imgRegex_sound [OF m] obtain rest where ne: "full \<noteq> []" and d: "drop i html = full @ rest"
    by blast
  have "length (drop i html) = length full + length rest"
    by (simp add: d)
  then have "i + length full \<le> length html" using le by simp
  moreover have "take (length full) (drop i html) = full" by (simp add: d)
  ultimately show ?thesis using le ne by simp
qed

function collect :: "string \<Rightarrow> nat \<Rightarrow> svg_match list" where
  "collect html lastIndex =
     (case exec imgRegex html lastIndex of
        None \<Rightarrow> []
      | Some (i, full, cap) \<Rightarrow>
          \<lparr>fullMatch = full, src = cap, index = i\<rparr> # collect html (i + length full))"
  by pat_completeness auto
termination
proof (relation "measure (\<lambda>(html, lastIndex). Suc (length html) - lastIndex)")
  show "wf (measure (\<lambda>(html, lastIndex). Suc (length html) - lastIndex))" by simp
next
  fix html :: string and lastIndex :: nat and found i rest full cap
  assume "exec imgRegex html lastIndex = Some found" "(i, rest) = found" "(full, cap) = rest"
  then have "exec imgRegex html lastIndex = Some (i, full, cap)" by simp
  from exec_imgRegex_advances [OF this]
  show "((html, i + length full), (html, lastIndex))
          \<in> measure (\<lambda>(html, lastIndex). Suc (length html) - lastIndex)"
    by (cases full) auto
qed

declare collect.simps [simp del]

subsection \<open>processSvgImages: registering the tasks\<close>

text \<open>
  \<^verbatim>\<open>(.+)$\<close> at the end of the two \<^verbatim>\<open>data:\<close> patterns: the rest of the string, which
  must not be empty and must not contain a line terminator.
\<close>

definition rest_of_line :: "string \<Rightarrow> string option" where
  "rest_of_line s =
     (if s \<noteq> [] \<and> list_all (\<lambda>c. c \<noteq> CHR 0x0A \<and> c \<noteq> CHR 0x0D) s then Some s else None)"

text \<open>\<^verbatim>\<open>src.match(/^data:image\/svg\+xml;base64,(.+)$/)\<close>\<close>

definition base64Match :: "string \<Rightarrow> string option" where
  "base64Match s =
     (if startsWith s ''data:image/svg+xml;base64,''
      then rest_of_line (drop (length ''data:image/svg+xml;base64,'') s) else None)"

text \<open>\<^verbatim>\<open>src.match(/^data:image\/svg\+xml[;,](.+)$/)\<close>\<close>

definition urlMatch :: "string \<Rightarrow> string option" where
  "urlMatch s =
     (if startsWith s ''data:image/svg+xml;'' \<or> startsWith s ''data:image/svg+xml,''
      then rest_of_line (drop (length ''data:image/svg+xml;'') s) else None)"

definition initialStatus :: "string \<Rightarrow> status" where
  "initialStatus s = (if startsWith s ''data:'' then Ready else Fetching)"

definition initialSvgContent :: "platform \<Rightarrow> string \<Rightarrow> exn + string option" where
  "initialSvgContent pf s =
     (if startsWith s ''data:'' then
        (case base64Match s of
           Some b \<Rightarrow> (case atob pf b of Inl e \<Rightarrow> Inl e | Inr content \<Rightarrow> Inr (Some content))
         | None \<Rightarrow>
             (case urlMatch s of
                Some u \<Rightarrow>
                  (case decodeURIComponent pf u of Inl e \<Rightarrow> Inl e | Inr content \<Rightarrow> Inr (Some content))
              | None \<Rightarrow> Inr None))
      else Inr None)"

text \<open>
  Starting the retrieval of a \<^verbatim>\<open>fetching\<close> task. The retrieval itself is one of the
  side fetches of the scheduler; here only the construction of the absolute URL of a local
  file can throw.
\<close>

definition start_fetch :: "platform \<Rightarrow> string \<Rightarrow> exn + unit" where
  "start_fetch pf s =
     (if initialStatus s = Fetching then
        (if startsWith s ''http://'' \<or> startsWith s ''https://'' then Inr ()
         else (case absoluteUrl pf s of Inl e \<Rightarrow> Inl e | Inr u \<Rightarrow> Inr ()))
      else Inr ())"

text \<open>The body of the \<^verbatim>\<open>for\<close> loop for one match, on the markup and the state.\<close>

definition svg_replace ::
  "platform \<Rightarrow> translator \<Rightarrow> renderer \<Rightarrow> svg_match \<Rightarrow> string \<times> page \<Rightarrow> exn + string \<times> page" where
  "svg_replace pf translate r m s =
     (let html = fst s; pg = snd s;
          fileName = last (split_on (CHR ''/'') (src m))
      in case initialSvgContent pf (src m) of
           Inl e \<Rightarrow> Inl e
         | Inr initialContent \<Rightarrow>
             (let (t, placeholder, pg') =
                    asyncTask translate (svg_callback r) (Svg (src m) (fullMatch m) initialContent)
                      ''svg'' fileName (initialStatus (src m)) pg
              in case start_fetch pf (src m) of
                   Inl e \<Rightarrow> Inl e
                 | Inr u \<Rightarrow>
                     Inr (take (index m) html @ placeholder
                            @ drop (index m + length (fullMatch m)) html, pg')))"

fun svg_loop ::
  "platform \<Rightarrow> translator \<Rightarrow> renderer \<Rightarrow> svg_match list \<Rightarrow> string \<times> page \<Rightarrow> exn + string \<times> page" where
  "svg_loop pf translate r [] s = Inr s"
| "svg_loop pf translate r (m # ms) s =
     (case svg_replace pf translate r m s of
        Inl e \<Rightarrow> Inl e
      | Inr s' \<Rightarrow> svg_loop pf translate r ms s')"

text \<open>The matches are taken from the last to the first.\<close>

definition processSvgImages ::
  "platform \<Rightarrow> translator \<Rightarrow> renderer \<Rightarrow> string \<Rightarrow> page \<Rightarrow> exn + string \<times> page" where
  "processSvgImages pf translate r html pg =
     (let matches = collect html 0 in
      if matches = [] then Inr (html, pg)
      else svg_loop pf translate r (rev matches) (html, pg))"

subsection \<open>What the specification says of the substitution\<close>

text \<open>
  Markup cut at its matched tags is a list of pairs, the text before a tag and the tag,
  and the text after the last tag. \<open>offsets\<close> gives the position of each tag when the
  first pair starts at position \<open>base\<close>.
\<close>

definition joined :: "(string \<times> string) list \<Rightarrow> string" where
  "joined segs = concat (map (\<lambda>(gap, tag). gap @ tag) segs)"

fun offsets :: "nat \<Rightarrow> (string \<times> string) list \<Rightarrow> nat list" where
  "offsets base [] = []"
| "offsets base (seg # segs) =
     (base + length (fst seg)) # offsets (base + length (fst seg) + length (snd seg)) segs"

text \<open>
  The same markup with each tag replaced: \<open>places\<close> gives, for each tag, the id and the
  description of the placeholder that stands in its place.
\<close>

definition substituted :: "translator \<Rightarrow> (string \<times> string) list \<Rightarrow> (string \<times> string) list \<Rightarrow> string" where
  "substituted translate segs places =
     concat (map (\<lambda>((gap, tag), (ident, description)).
                    gap @ createAsyncPlaceholder translate ident ''svg'' description)
                 (zip segs places))"

section \<open>Example inputs\<close>

text \<open>
  A callback that splices fixed markup in at its placeholder, and one that throws.
\<close>

definition splice_done :: callback where
  "splice_done d doc = Inr (replace_placeholder (data_id d) (Markup ''rendered'') doc)"

definition throwing :: callback where
  "throwing d doc = Inl (Thrown (JsError ''render failed''))"

definition example_task :: "string \<Rightarrow> callback \<Rightarrow> status \<Rightarrow> task" where
  "example_task ident cb st =
     \<lparr>task_id = ident, task_callback = cb,
      task_data = \<lparr>data_id = ident, data_payload = Code ''graph TD''\<rparr>,
      task_type = ''mermaid'', task_status = st, task_error = None\<rparr>"

definition example_page :: "task list \<Rightarrow> page" where
  "example_page q =
     \<lparr>asyncTaskQueue = q, asyncTaskIdCounter = length q,
      live = map (\<lambda>t. Placeholder (task_id t)) q,
      progress = None, indicator_hidden = True, now = 0, drained = []\<rparr>"

text \<open>The translator that answers every key with the key and its first substitution.\<close>

definition echo_translate :: translator where
  "echo_translate k subs = k @ '':'' @ concat (take 1 subs)"



text \<open>
  Five tasks, the first still \<^verbatim>\<open>fetching\<close> when the loop starts and the third with a
  callback that throws; the retrieval of the first is due at the second suspension point.
\<close>

definition five_tasks :: page where
  "five_tasks =
     example_page [example_task ''async-placeholder-1'' splice_done Fetching,
                   example_task ''async-placeholder-2'' splice_done Ready,
                   example_task ''async-placeholder-3'' throwing Ready,
                   example_task ''async-placeholder-4'' splice_done Ready,
                   example_task ''async-placeholder-5'' splice_done Ready]"

definition one_retrieval :: fetches where
  "one_retrieval ident =
     (if ident = ''async-placeholder-1'' then Some (2, Content ''<svg></svg>'') else None)"

text \<open>A queue of one ready task whose callback throws.\<close>

definition one_throwing :: page where
  "one_throwing = example_page [example_task ''async-placeholder-3'' throwing Ready]"

text \<open>
  A callback that throws \<^verbatim>\<open>null\<close>, in a queue of two ready tasks; \<open>rejection\<close> reads
  off a run what it threw.
\<close>

definition throwing_null :: callback where
  "throwing_null d doc = Inl Thrown_null"

definition null_then_ready :: page where
  "null_then_ready =
     example_page [example_task ''async-placeholder-1'' throwing_null Ready,
                   example_task ''async-placeholder-2'' splice_done Ready]"

fun rejection :: "(exn + 'a) option \<Rightarrow> exn option" where
  "rejection (Some (Inl e)) = Some e"
| "rejection r = None"

text \<open>A renderer that answers every request with a PNG 1001 pixels wide.\<close>

definition example_renderer :: renderer where
  "example_renderer =
     (let answer = (\<lambda>content :: string.
            Inr (Some \<lparr>png_base64 = Some ''iVBORw0KGgo='', png_width = 1001, png_error = None\<rparr>))
      in \<lparr>renderMermaidToPng = answer, renderHtmlToPng = answer, renderSvgToPng = answer\<rparr>)"

definition example_data :: task_data where
  "example_data = \<lparr>data_id = ''async-placeholder-1'', data_payload = Code ''graph TD; A-->B''\<rparr>"

text \<open>
  A browser for the examples: every URL parses as \<^verbatim>\<open>https:\<close>, the parser answers one
  paragraph and the serializer its markup, \<^verbatim>\<open>atob\<close> rejects its input, the URI decoder
  returns it, and a local path resolves under \<^verbatim>\<open>file:///doc/\<close>.
\<close>

definition example_platform :: platform where
  "example_platform =
     \<lparr>url_protocol = (\<lambda>u. Some ''https:''),
      dom_outerHTML = (\<lambda>n. ''<p>Hello</p>''),
      dom_parseHTML = (\<lambda>h. Inr [Element ''P'' [] [Text ''Hello'']]),
      dom_innerHTML = (\<lambda>ns. ''<p>Hello</p>''),
      atob = (\<lambda>b. Inl (JsError ''InvalidCharacterError'')),
      decodeURIComponent = (\<lambda>u. Inr u),
      absoluteUrl = (\<lambda>p. Inr (''file:///doc/'' @ p))\<rparr>"

definition empty_page :: page where
  "empty_page = example_page []"

text \<open>
  Markup with two SVG references: a remote one, and a \<^verbatim>\<open>data:\<close> URI whose media type is
  not the SVG one.
\<close>

definition two_svg_images :: string where
  \<open>two_svg_images =
     ''<p>See <img alt="a" src="https://example.com/a.svg"> and <img src="data:text/plain,q.svg">.</p>''\<close>

definition unrecognized_data_image :: string where
  \<open>unrecognized_data_image = ''<img src="data:text/plain,q.svg">''\<close>

definition no_content_data :: task_data where
  "no_content_data =
     \<lparr>data_id = ''async-placeholder-1'',
      data_payload = Svg ''data:text/plain,q.svg'' unrecognized_data_image None\<rparr>"

text \<open>
  \<^verbatim>\<open>atob\<close> as browsers have it: white space is dropped, one or two closing \<^verbatim>\<open>=\<close> are
  dropped when the length is a multiple of four, a character outside the alphabet or a
  length of one more than a multiple of four is refused, and every six bits of the rest
  go into the bytes of the result.
\<close>

definition base64_alphabet :: string where
  "base64_alphabet = ''ABCDEFGHIJKLMNOPQRSTUVWXYZabcdefghijklmnopqrstuvwxyz0123456789+/''"

definition sextet :: "char \<Rightarrow> bool list" where
  "sextet c =
     (case map_of (zip base64_alphabet [0..<64]) c of
        Some n \<Rightarrow> map (\<lambda>k. odd (n div 2 ^ k)) [5, 4, 3, 2, 1, 0]
      | None \<Rightarrow> [])"

function octets :: "bool list \<Rightarrow> string" where
  "octets bs =
     (case bs of
        b7 # b6 # b5 # b4 # b3 # b2 # b1 # b0 # rest \<Rightarrow> Char b0 b1 b2 b3 b4 b5 b6 b7 # octets rest
      | _ \<Rightarrow> [])"
  by pat_completeness auto
termination
  by (relation "measure length") auto

definition atob_standard :: "string \<Rightarrow> exn + string" where
  "atob_standard s =
     (let stripped = filter (\<lambda>c. c \<notin> set [CHR 0x09, CHR 0x0A, CHR 0x0C, CHR 0x0D, CHR 0x20]) s;
          dat = (if length stripped mod 4 = 0 then
                   (if suffix ''=='' stripped then take (length stripped - 2) stripped
                    else if suffix ''='' stripped then take (length stripped - 1) stripped
                    else stripped)
                 else stripped)
      in if length dat mod 4 = 1 \<or> \<not> list_all (\<lambda>c. c \<in> set base64_alphabet) dat
         then Inl (JsError ''InvalidCharacterError'')
         else Inr (octets (concat (map sextet dat))))"

definition browser_platform :: platform where
  "browser_platform = example_platform\<lparr>atob := atob_standard\<rparr>"

text \<open>
  Markup with a local SVG reference and an inline one in base64; the pattern asks of the
  inline source, too, that it end in \<^verbatim>\<open>.svg\<close>.
\<close>

definition local_and_base64_images :: string where
  \<open>local_and_base64_images =
     ''x<img src="l.svg">y<img src="data:image/svg+xml;base64,PHN2Zz4=.svg">z''\<close>

text \<open>What a call threw, if it threw.\<close>

fun thrown_by :: "exn + 'a \<Rightarrow> exn option" where
  "thrown_by (Inl e) = Some e"
| "thrown_by (Inr v) = None"

section \<open>Properties of the cache proxy\<close>

lemma byte_hex_pad:
  "padStart 2 (CHR ''0'') (toString16 b) = [hex_digits ! (unat b div 16), hex_digits ! (unat b mod 16)]"
proof (cases "unat b < 16")
  case True
  then have "unat b div 16 = 0" and "unat b mod 16 = unat b" by simp_all
  then show ?thesis
    using True by (simp add: padStart_def toString16_def hex_digits_def)
next
  case False
  then show ?thesis by (simp add: padStart_def toString16_def)
qed

lemma calculateHash_lower_hex:
  "calculateHash encode digest text = lower_hex (digest (encode text))"
  by (simp add: calculateHash_def lower_hex_def byte_hex_pad)

text \<open>
  C7. The cache key is a function of the content and the kind tag alone: it is the lowercase
  hexadecimal digest of the content, an underscore, and the kind tag; two different kind
  tags give two different keys for the same content.
\<close>

theorem generateKey_deterministic_kind_sensitive:
  "generateKey encode digest x k = lower_hex (digest (encode x)) @ ''_'' @ k
   \<and> (k \<noteq> k' \<longrightarrow> generateKey encode digest x k \<noteq> generateKey encode digest x k')"
  by (simp add: generateKey_def calculateHash_lower_hex)

theorem generateKey_witness:
  "''diagram'' \<noteq> ''html-block''
   \<and> generateKey (map of_char) (\<lambda>bs. [0x0a, 0xff]) ''graph TD'' ''diagram'' = ''0aff_diagram''
   \<and> generateKey (map of_char) (\<lambda>bs. [0x0a, 0xff]) ''graph TD'' ''diagram''
       \<noteq> generateKey (map of_char) (\<lambda>bs. [0x0a, 0xff]) ''graph TD'' ''html-block''"
proof -
  have ne: "''diagram'' \<noteq> ''html-block''" by simp
  have eq: "lower_hex [0x0a, 0xff] = ''0aff''"
    by (simp add: lower_hex_def hex_digits_def)
  note inst = generateKey_deterministic_kind_sensitive
    [of "map of_char" "\<lambda>bs. [0x0a, 0xff]" "''graph TD''" "''diagram''" "''html-block''"]
  from inst have k: "generateKey (map of_char) (\<lambda>bs. [0x0a, 0xff]) ''graph TD'' ''diagram''
      = ''0aff_diagram''"
    by (simp add: eq)
  from inst ne have d: "generateKey (map of_char) (\<lambda>bs. [0x0a, 0xff]) ''graph TD'' ''diagram''
       \<noteq> generateKey (map of_char) (\<lambda>bs. [0x0a, 0xff]) ''graph TD'' ''html-block''"
    by blast
  from ne k d show ?thesis by blast
qed

text \<open>
  C8. Neither \<^verbatim>\<open>get\<close> nor \<^verbatim>\<open>set\<close> lets an exception out: whatever the message
  channel does, both return a value; when the storage call fails, \<^verbatim>\<open>get\<close> returns
  \<^verbatim>\<open>null\<close> and \<^verbatim>\<open>set\<close> returns \<^verbatim>\<open>false\<close>.
\<close>

theorem cache_access_never_throws:
  "(\<exists>v. get sendMessage key = Inr v)
   \<and> (\<exists>b. set_cache sendMessage key val type = Inr b)
   \<and> (storage_failed (sendMessage (CacheGet key)) \<longrightarrow> get sendMessage key = Inr None)
   \<and> (storage_failed (sendMessage (CacheSet key val type))
        \<longrightarrow> set_cache sendMessage key val type = Inr False)"
proof -
  have g: "\<exists>v. get sendMessage key = Inr v"
    by (cases "get_body sendMessage key") (auto simp: get_def)
  have s: "\<exists>b. set_cache sendMessage key val type = Inr b"
    by (cases "set_body sendMessage key val type") (auto simp: set_cache_def)
  have gf: "get sendMessage key = Inr None" if "storage_failed (sendMessage (CacheGet key))"
  proof (cases "sendMessage (CacheGet key)")
    case (Inl e)
    then show ?thesis by (simp add: get_def get_body_def)
  next
    case (Inr resp)
    with that show ?thesis
      by (cases resp) (simp_all add: get_def get_body_def)
  qed
  have sf: "set_cache sendMessage key val type = Inr False"
    if "storage_failed (sendMessage (CacheSet key val type))"
  proof (cases "sendMessage (CacheSet key val type)")
    case (Inl e)
    then show ?thesis by (simp add: set_cache_def set_body_def)
  next
    case (Inr resp)
    with that show ?thesis
      by (cases resp) (simp_all add: set_cache_def set_body_def)
  qed
  from g s gf sf show ?thesis by blast
qed

theorem cache_access_never_throws_witness:
  "storage_failed ((\<lambda>m. Inl (JsError ''Extension context invalidated'')
                     :: exn + nat response option) (CacheGet ''k''))
   \<and> storage_failed ((\<lambda>m. Inr (Some \<lparr>error = Some ''QuotaExceededError'', result = None, success = True\<rparr>)
                     :: exn + nat response option) (CacheSet ''k'' 7 ''mermaid''))
   \<and> get (\<lambda>m. Inl (JsError ''Extension context invalidated'') :: exn + nat response option) ''k''
       = Inr None
   \<and> set_cache (\<lambda>m. Inr (Some \<lparr>error = Some ''QuotaExceededError'', result = None, success = True\<rparr>))
       ''k'' (7::nat) ''mermaid'' = Inr False"
  using cache_access_never_throws
    [of "\<lambda>m. Inl (JsError ''Extension context invalidated'') :: exn + nat response option" "''k''"]
    cache_access_never_throws
    [of "\<lambda>m. Inr (Some \<lparr>error = Some ''QuotaExceededError'', result = None, success = True\<rparr>)"
        "''k''" "7::nat" "''mermaid''"]
  by simp

section \<open>Properties of the sanitizer\<close>

lemmas string_eval =
  toLowerCase_def toLowerChar_def toUpperCase_def toUpperChar_def
  upper_letters_def lower_letters_def trim_def is_ws_def

subsection \<open>Attributes\<close>

text \<open>How many attributes of an element carry a given name.\<close>

definition named :: "string \<Rightarrow> attr list \<Rightarrow> nat" where
  "named n as = length (filter (\<lambda>a. fst a = n) as)"

lemma named_Nil [simp]: "named n [] = 0"
  by (simp add: named_def)

lemma named_Cons [simp]: "named n (a # as) = (if fst a = n then Suc (named n as) else named n as)"
  by (simp add: named_def)

lemma named_removeAttribute:
  "named n (removeAttribute m as) = (if m = n then named n as - 1 else named n as)"
  by (induction as) auto

lemma named_setAttribute_other:
  "m \<noteq> n \<Longrightarrow> named n (setAttribute m v as) = named n as"
  by (induction as) auto

lemma named_zero_iff: "named n as = 0 \<longleftrightarrow> n \<notin> fst ` set as"
  by (induction as) auto

lemma named_sanitizeAttr_other:
  "fst a \<noteq> n \<Longrightarrow> named n (sanitizeAttr protocol a as) = named n as"
  by (simp add: sanitizeAttr_def Let_def named_removeAttribute named_setAttribute_other)

lemma named_sanitizeAttr_handler:
  "is_handler a \<Longrightarrow> named (fst a) (sanitizeAttr protocol a as) = named (fst a) as - 1"
  by (simp add: sanitizeAttr_def is_handler_def named_removeAttribute)

lemma fold_sanitizeAttr_no_handler:
  assumes "\<forall>n. startsWith (toLowerCase n) ''on'' \<longrightarrow> named n cur \<le> named n snapshot"
  shows "list_all (\<lambda>a. \<not> is_handler a) (fold (sanitizeAttr protocol) snapshot cur)"
  using assms
proof (induction snapshot arbitrary: cur)
  case Nil
  have "\<not> is_handler a" if "a \<in> set cur" for a
  proof
    assume "is_handler a"
    then have "named (fst a) cur = 0"
      using Nil by (simp add: is_handler_def)
    with that show False
      by (simp add: named_zero_iff)
  qed
  then show ?case by (simp add: list_all_iff)
next
  case (Cons x xs)
  have "named n (sanitizeAttr protocol x cur) \<le> named n xs"
    if on: "startsWith (toLowerCase n) ''on''" for n
  proof (cases "fst x = n")
    case True
    then have "is_handler x" using on by (simp add: is_handler_def)
    then have "named n (sanitizeAttr protocol x cur) = named n cur - 1"
      using True named_sanitizeAttr_handler by blast
    moreover have "named n cur \<le> Suc (named n xs)"
      using Cons.prems on True by (metis named_Cons)
    ultimately show ?thesis by simp
  next
    case False
    then have "named n (sanitizeAttr protocol x cur) = named n cur"
      by (rule named_sanitizeAttr_other)
    moreover have "named n cur \<le> named n xs"
      using Cons.prems on False by (metis named_Cons)
    ultimately show ?thesis by simp
  qed
  then show ?case
    using Cons.IH by simp
qed

lemma sanitizeElementAttributes_no_handler:
  "list_all (\<lambda>a. \<not> is_handler a) (sanitizeElementAttributes protocol attrs)"
  by (simp add: sanitizeElementAttributes_def fold_sanitizeAttr_no_handler)

text \<open>Attributes that are neither handlers nor URL attributes are not touched.\<close>

lemma filter_removeAttribute_other:
  "\<forall>b. fst b = m \<longrightarrow> \<not> keep b \<Longrightarrow> filter keep (removeAttribute m as) = filter keep as"
  by (induction as) auto

lemma filter_setAttribute_other:
  "\<forall>b. fst b = m \<longrightarrow> \<not> keep b \<Longrightarrow> filter keep (setAttribute m v as) = filter keep as"
  by (induction as) auto

lemma filter_sanitizeAttr:
  "filter (\<lambda>a. \<not> is_handler a \<and> \<not> is_url_attr a) (sanitizeAttr protocol x as)
     = filter (\<lambda>a. \<not> is_handler a \<and> \<not> is_url_attr a) as"
proof -
  let ?keep = "\<lambda>a. \<not> is_handler a \<and> \<not> is_url_attr a"
  have "sanitizeAttr protocol x as = as
        \<or> (\<not> ?keep x \<and> (sanitizeAttr protocol x as = removeAttribute (fst x) as
              \<or> sanitizeAttr protocol x as = setAttribute (fst x) ''#'' as))"
    by (auto simp: sanitizeAttr_def Let_def is_handler_def is_url_attr_def)
  moreover have "\<forall>b. fst b = fst x \<longrightarrow> \<not> ?keep b" if "\<not> ?keep x"
    using that by (auto simp: is_handler_def is_url_attr_def)
  ultimately consider "sanitizeAttr protocol x as = as"
    | "(\<forall>b. fst b = fst x \<longrightarrow> \<not> ?keep b) \<and> sanitizeAttr protocol x as = removeAttribute (fst x) as"
    | "(\<forall>b. fst b = fst x \<longrightarrow> \<not> ?keep b) \<and> sanitizeAttr protocol x as = setAttribute (fst x) ''#'' as"
    by blast
  then show ?thesis
  proof cases
    case 1
    then show ?thesis by simp
  next
    case 2
    then show ?thesis
      using filter_removeAttribute_other [of "fst x" ?keep as] by simp
  next
    case 3
    then show ?thesis
      using filter_setAttribute_other [of "fst x" ?keep "''#''" as] by simp
  qed
qed

lemma filter_fold_sanitizeAttr:
  "filter (\<lambda>a. \<not> is_handler a \<and> \<not> is_url_attr a) (fold (sanitizeAttr protocol) xs as)
     = filter (\<lambda>a. \<not> is_handler a \<and> \<not> is_url_attr a) as"
  by (induction xs arbitrary: as) (simp_all add: filter_sanitizeAttr)

lemma sanitizeElementAttributes_keeps_plain:
  "filter (\<lambda>a. \<not> is_handler a \<and> \<not> is_url_attr a) (sanitizeElementAttributes protocol attrs)
     = filter (\<lambda>a. \<not> is_handler a \<and> \<not> is_url_attr a) attrs"
  by (simp add: sanitizeElementAttributes_def filter_fold_sanitizeAttr)

text \<open>
  With pairwise different attribute names, which is what an element of a parsed document
  has, each attribute is decided on its own: \<open>sanitized_as\<close> is what becomes of it.
\<close>

definition sanitized_as :: "(string \<Rightarrow> string option) \<Rightarrow> attr \<Rightarrow> attr option" where
  "sanitized_as protocol a = (case sanitizeAttr protocol a [a] of [] \<Rightarrow> None | b # bs \<Rightarrow> Some b)"

lemma removeAttribute_first:
  "n \<notin> fst ` set pre \<Longrightarrow> removeAttribute n (pre @ (n, v) # xs) = pre @ xs"
  by (induction pre) auto

lemma setAttribute_first:
  "n \<notin> fst ` set pre \<Longrightarrow> setAttribute n w (pre @ (n, v) # xs) = pre @ (n, w) # xs"
  by (induction pre) auto

lemma sanitizeAttr_first:
  assumes "fst a \<notin> fst ` set pre"
  shows "sanitizeAttr protocol a (pre @ a # xs)
           = pre @ (case sanitized_as protocol a of None \<Rightarrow> [] | Some b \<Rightarrow> [b]) @ xs"
proof -
  obtain n v where a: "a = (n, v)" by (cases a)
  with assms have n: "n \<notin> fst ` set pre" by simp
  show ?thesis
    unfolding a sanitized_as_def sanitizeAttr_def Let_def
    by (simp add: removeAttribute_first [OF n] setAttribute_first [OF n])
qed

lemma sanitized_as_name: "sanitized_as protocol a = Some b \<Longrightarrow> fst b = fst a"
  by (cases a) (auto simp: sanitized_as_def sanitizeAttr_def Let_def split: if_splits)

lemma fold_sanitizeAttr_distinct:
  "distinct (map fst (pre @ xs))
     \<Longrightarrow> fold (sanitizeAttr protocol) xs (pre @ xs) = pre @ List.map_filter (sanitized_as protocol) xs"
proof (induction xs arbitrary: pre)
  case Nil
  then show ?case by simp
next
  case (Cons x xs)
  then have fresh: "fst x \<notin> fst ` set pre" by auto
  show ?case
  proof (cases "sanitized_as protocol x")
    case None
    have "distinct (map fst (pre @ xs))" using Cons.prems by simp
    then show ?thesis
      using Cons.IH [of pre] sanitizeAttr_first [OF fresh, of protocol xs] None
      by simp
  next
    case (Some b)
    then have "fst b = fst x" by (rule sanitized_as_name)
    then have "distinct (map fst ((pre @ [b]) @ xs))" using Cons.prems by simp
    then show ?thesis
      using Cons.IH [of "pre @ [b]"] sanitizeAttr_first [OF fresh, of protocol xs] Some
      by simp
  qed
qed

lemma sanitizeElementAttributes_distinct:
  assumes "distinct (map fst attrs)"
  shows "sanitizeElementAttributes protocol attrs = List.map_filter (sanitized_as protocol) attrs"
  using fold_sanitizeAttr_distinct [of "[]" attrs protocol] assms
  by (simp add: sanitizeElementAttributes_def)

lemma set_map_filter_iff:
  "y \<in> set (List.map_filter f xs) \<longleftrightarrow> (\<exists>x \<in> set xs. f x = Some y)"
  by (induction xs) (auto split: option.splits)

lemma sanitized_member:
  assumes d: "distinct (map fst attrs)" and m: "(n, v) \<in> set attrs"
  shows "(n, w) \<in> set (sanitizeElementAttributes protocol attrs)
           \<longleftrightarrow> sanitized_as protocol (n, v) = Some (n, w)"
proof
  assume "(n, w) \<in> set (sanitizeElementAttributes protocol attrs)"
  then obtain a where a: "a \<in> set attrs" "sanitized_as protocol a = Some (n, w)"
    using d by (auto simp: sanitizeElementAttributes_distinct set_map_filter_iff)
  then have "fst a = n" using sanitized_as_name by fastforce
  then have "a = (n, v)"
    using d m a(1) by (metis eq_key_imp_eq_value prod.collapse)
  with a show "sanitized_as protocol (n, v) = Some (n, w)" by simp
next
  assume "sanitized_as protocol (n, v) = Some (n, w)"
  with m show "(n, w) \<in> set (sanitizeElementAttributes protocol attrs)"
    using d by (force simp: sanitizeElementAttributes_distinct set_map_filter_iff)
qed

lemma trim_Nil [simp]: "trim [] = []"
  by (simp add: trim_def)

lemma sanitized_as_href:
  assumes "toLowerCase n = ''href'' \<or> toLowerCase n = ''xlink:href''"
  shows "sanitized_as protocol (n, v) = (if trim v \<noteq> [] then Some (n, ''#'') else None)"
  using assms
  by (auto simp: sanitized_as_def sanitizeAttr_def urlAttributes_def)

lemma sanitized_as_url:
  assumes "toLowerCase n \<in> {''src'', ''action'', ''formaction'', ''poster'', ''data''}"
  shows "sanitized_as protocol (n, v) = (if isSafeUrl protocol v then Some (n, v) else None)"
  using assms
  by (auto simp: sanitized_as_def sanitizeAttr_def urlAttributes_def)

subsection \<open>isSafeUrl\<close>

lemma isSafeUrl_javascript:
  assumes "startsWith (toLowerCase (trim u)) ''javascript:''"
  shows "\<not> isSafeUrl protocol u"
proof -
  from assms obtain c cs where t: "trim u = c # cs" and c: "toLowerChar c = CHR ''j''"
    by (cases "trim u") (auto simp: toLowerCase_def)
  have "c \<noteq> CHR ''#''"
    using c by (auto simp: toLowerChar_def upper_letters_def lower_letters_def)
  moreover have "u \<noteq> []" using t by auto
  ultimately show ?thesis
    using assms t by (simp add: isSafeUrl_def Let_def)
qed

lemma isSafeUrl_data:
  assumes "startsWith (toLowerCase (trim u)) ''data:''"
  shows "isSafeUrl protocol u \<longleftrightarrow>
           startsWith (toLowerCase (trim u)) ''data:image/''
           \<or> startsWith (toLowerCase (trim u)) ''data:application/pdf''"
proof -
  define L where "L = toLowerCase (trim u)"
  from assms obtain rest where l: "L = ''data:'' @ rest"
    by (auto simp: prefix_def L_def)
  then obtain c cs where t: "trim u = c # cs" and c: "toLowerChar c = CHR ''d''"
    by (cases "trim u") (auto simp: toLowerCase_def L_def)
  have "c \<noteq> CHR ''#''"
    using c by (auto simp: toLowerChar_def upper_letters_def lower_letters_def)
  then have h: "\<not> startsWith (trim u) ''#''" using t by simp
  have ne: "u \<noteq> []" "trim u \<noteq> []" using t by auto
  have nj: "\<not> startsWith L ''javascript:''" and nv: "\<not> startsWith L ''vbscript:''"
    by (simp_all add: l)
  have tj: "\<not> startsWith L ''data:image/''" "\<not> startsWith L ''data:application/pdf''"
    if "startsWith L ''data:text/javascript''"
    using that by (auto simp: l prefix_def)
  have d: "startsWith L ''data:''" by (simp add: l)
  show ?thesis
    unfolding isSafeUrl_def Let_def L_def [symmetric]
    using ne h nj nv tj d by auto
qed

lemma isSafeUrl_protocol:
  assumes "trim u \<noteq> []" and "\<not> startsWith (trim u) ''#''"
    and "\<not> startsWith (toLowerCase (trim u)) ''javascript:''"
    and "\<not> startsWith (toLowerCase (trim u)) ''vbscript:''"
    and "\<not> startsWith (toLowerCase (trim u)) ''data:''"
  shows "isSafeUrl protocol u \<longleftrightarrow> (\<exists>p. protocol (trim u) = Some p \<and> p \<in> set allowed_protocols)"
proof -
  have "u \<noteq> []" using assms(1) by auto
  moreover have "\<not> startsWith (toLowerCase (trim u)) ''data:text/javascript''"
    using assms(5) by (auto simp: prefix_def)
  ultimately show ?thesis
    using assms by (auto simp: isSafeUrl_def Let_def split: option.splits)
qed

text \<open>
  C3, as the code has it. An \<^verbatim>\<open>href\<close> or \<^verbatim>\<open>xlink:href\<close> attribute never keeps its
  URL: a non-blank value of any scheme is replaced by \<^verbatim>\<open>#\<close> and a blank one is removed.
  The scheme allow-list governs \<^verbatim>\<open>src\<close>, \<^verbatim>\<open>action\<close>, \<^verbatim>\<open>formaction\<close>,
  \<^verbatim>\<open>poster\<close> and \<^verbatim>\<open>data\<close>: such an attribute is kept, unchanged, exactly when
  \<^verbatim>\<open>isSafeUrl\<close> accepts its value. \<^verbatim>\<open>isSafeUrl\<close> rejects every \<^verbatim>\<open>javascript:\<close> value,
  accepts a \<^verbatim>\<open>data:\<close> URI only as \<^verbatim>\<open>data:image/\<close> or \<^verbatim>\<open>data:application/pdf\<close>,
  and accepts any other non-blank, non-fragment value that is not \<^verbatim>\<open>vbscript:\<close> exactly
  when its parsed protocol is http, https, mailto, tel, chrome-extension or file.
\<close>

theorem href_defused_other_urls_allow_listed:
  assumes "distinct (map fst attrs)" and "(n, v) \<in> set attrs"
  shows "(toLowerCase n \<in> {''href'', ''xlink:href''} \<longrightarrow>
            (\<forall>w. (n, w) \<in> set (sanitizeElementAttributes protocol attrs) \<longleftrightarrow> w = ''#'' \<and> trim v \<noteq> []))
       \<and> (toLowerCase n \<in> {''src'', ''action'', ''formaction'', ''poster'', ''data''} \<longrightarrow>
            (\<forall>w. (n, w) \<in> set (sanitizeElementAttributes protocol attrs) \<longleftrightarrow> w = v \<and> isSafeUrl protocol v))
       \<and> (startsWith (toLowerCase (trim v)) ''javascript:'' \<longrightarrow> \<not> isSafeUrl protocol v)
       \<and> (startsWith (toLowerCase (trim v)) ''data:'' \<longrightarrow>
            (isSafeUrl protocol v \<longleftrightarrow>
               startsWith (toLowerCase (trim v)) ''data:image/''
               \<or> startsWith (toLowerCase (trim v)) ''data:application/pdf''))
       \<and> (trim v \<noteq> [] \<and> \<not> startsWith (trim v) ''#''
            \<and> \<not> startsWith (toLowerCase (trim v)) ''javascript:''
            \<and> \<not> startsWith (toLowerCase (trim v)) ''vbscript:''
            \<and> \<not> startsWith (toLowerCase (trim v)) ''data:'' \<longrightarrow>
            (isSafeUrl protocol v \<longleftrightarrow> (\<exists>p. protocol (trim v) = Some p \<and> p \<in> set allowed_protocols)))"
proof -
  note member = sanitized_member [OF assms, of _ protocol]
  have href: "(n, w) \<in> set (sanitizeElementAttributes protocol attrs) \<longleftrightarrow> w = ''#'' \<and> trim v \<noteq> []"
    if "toLowerCase n \<in> {''href'', ''xlink:href''}" for w
    using that member [of w] sanitized_as_href [of n protocol v] by auto
  have url: "(n, w) \<in> set (sanitizeElementAttributes protocol attrs) \<longleftrightarrow> w = v \<and> isSafeUrl protocol v"
    if "toLowerCase n \<in> {''src'', ''action'', ''formaction'', ''poster'', ''data''}" for w
    using that member [of w] sanitized_as_url [of n protocol v] by auto
  show ?thesis
  proof (intro conjI impI allI)
    fix w assume "toLowerCase n \<in> {''href'', ''xlink:href''}"
    then show "(n, w) \<in> set (sanitizeElementAttributes protocol attrs) \<longleftrightarrow> w = ''#'' \<and> trim v \<noteq> []"
      by (rule href)
  next
    fix w assume "toLowerCase n \<in> {''src'', ''action'', ''formaction'', ''poster'', ''data''}"
    then show "(n, w) \<in> set (sanitizeElementAttributes protocol attrs) \<longleftrightarrow> w = v \<and> isSafeUrl protocol v"
      by (rule url)
  next
    assume "startsWith (toLowerCase (trim v)) ''javascript:''"
    then show "\<not> isSafeUrl protocol v" by (rule isSafeUrl_javascript)
  next
    assume "startsWith (toLowerCase (trim v)) ''data:''"
    then show "isSafeUrl protocol v \<longleftrightarrow>
               startsWith (toLowerCase (trim v)) ''data:image/''
               \<or> startsWith (toLowerCase (trim v)) ''data:application/pdf''"
      by (rule isSafeUrl_data)
  next
    assume "trim v \<noteq> [] \<and> \<not> startsWith (trim v) ''#''
            \<and> \<not> startsWith (toLowerCase (trim v)) ''javascript:''
            \<and> \<not> startsWith (toLowerCase (trim v)) ''vbscript:''
            \<and> \<not> startsWith (toLowerCase (trim v)) ''data:''"
    then show "isSafeUrl protocol v \<longleftrightarrow> (\<exists>p. protocol (trim v) = Some p \<and> p \<in> set allowed_protocols)"
      using isSafeUrl_protocol [of v protocol] by blast
  qed
qed

text \<open>
  A link and an image of one element: the \<^verbatim>\<open>javascript:\<close> link and the
  \<^verbatim>\<open>https:\<close> link both end as \<^verbatim>\<open>#\<close>, the \<^verbatim>\<open>https:\<close> image source is kept.
\<close>

theorem href_defused_other_urls_allow_listed_witness:
  "distinct (map fst [(''href'', ''javascript:alert(1)''), (''src'', ''https://example.com/a.png'')])
   \<and> (''href'', ''javascript:alert(1)'') \<in> set [(''href'', ''javascript:alert(1)''), (''src'', ''https://example.com/a.png'')]
   \<and> (''src'', ''https://example.com/a.png'') \<in> set [(''href'', ''javascript:alert(1)''), (''src'', ''https://example.com/a.png'')]
   \<and> toLowerCase ''href'' \<in> {''href'', ''xlink:href''}
   \<and> toLowerCase ''src'' \<in> {''src'', ''action'', ''formaction'', ''poster'', ''data''}
   \<and> startsWith (toLowerCase (trim ''javascript:alert(1)'')) ''javascript:''
   \<and> (''href'', ''#'') \<in> set (sanitizeElementAttributes (\<lambda>u. Some ''https:'')
         [(''href'', ''javascript:alert(1)''), (''src'', ''https://example.com/a.png'')])
   \<and> (''href'', ''javascript:alert(1)'') \<notin> set (sanitizeElementAttributes (\<lambda>u. Some ''https:'')
         [(''href'', ''javascript:alert(1)''), (''src'', ''https://example.com/a.png'')])
   \<and> \<not> isSafeUrl (\<lambda>u. Some ''https:'') ''javascript:alert(1)''
   \<and> isSafeUrl (\<lambda>u. Some ''https:'') ''https://example.com/a.png''
   \<and> (''src'', ''https://example.com/a.png'') \<in> set (sanitizeElementAttributes (\<lambda>u. Some ''https:'')
         [(''href'', ''javascript:alert(1)''), (''src'', ''https://example.com/a.png'')])"
proof -
  let ?attrs = "[(''href'', ''javascript:alert(1)''), (''src'', ''https://example.com/a.png'')]"
  let ?p = "\<lambda>u :: string. Some ''https:''"
  have d: "distinct (map fst ?attrs)" by simp
  have m1: "(''href'', ''javascript:alert(1)'') \<in> set ?attrs" by simp
  have m2: "(''src'', ''https://example.com/a.png'') \<in> set ?attrs" by simp
  have l1: "toLowerCase ''href'' \<in> {''href'', ''xlink:href''}" by (simp add: string_eval)
  have l2: "toLowerCase ''src'' \<in> {''src'', ''action'', ''formaction'', ''poster'', ''data''}"
    by (simp add: string_eval)
  have j: "startsWith (toLowerCase (trim ''javascript:alert(1)'')) ''javascript:''"
    by (simp add: string_eval)
  have t: "trim ''javascript:alert(1)'' \<noteq> []" by (simp add: string_eval)
  have s: "isSafeUrl ?p ''https://example.com/a.png''"
    by (simp add: isSafeUrl_def allowed_protocols_def string_eval)
  note h = href_defused_other_urls_allow_listed [OF d m1, of ?p]
  note u = href_defused_other_urls_allow_listed [OF d m2, of ?p]
  note hA = h [THEN conjunct1, rule_format, OF l1]
  note uB = u [THEN conjunct2, THEN conjunct1, rule_format, OF l2]
  have a: "(''href'', ''#'') \<in> set (sanitizeElementAttributes ?p ?attrs)"
    by (rule hA [THEN iffD2]) (simp add: t)
  have b: "(''href'', ''javascript:alert(1)'') \<notin> set (sanitizeElementAttributes ?p ?attrs)"
  proof
    assume "(''href'', ''javascript:alert(1)'') \<in> set (sanitizeElementAttributes ?p ?attrs)"
    then have "''javascript:alert(1)'' = ''#''"
      by (rule hA [THEN iffD1, THEN conjunct1])
    then show False by simp
  qed
  have c: "\<not> isSafeUrl ?p ''javascript:alert(1)''"
    by (rule h [THEN conjunct2, THEN conjunct2, THEN conjunct1, rule_format, OF j])
  have e: "(''src'', ''https://example.com/a.png'') \<in> set (sanitizeElementAttributes ?p ?attrs)"
    by (rule uB [THEN iffD2]) (simp add: s)
  show ?thesis
    by (intro conjI d m1 m2 l1 l2 j a b c s e)
qed

text \<open>
  The claim as written fails: \<^verbatim>\<open>https://example.com\<close> passes the allow-list, and yet as
  an \<^verbatim>\<open>href\<close> it is not kept unchanged.
\<close>

theorem href_https_not_kept_counterexample:
  "isSafeUrl (\<lambda>u. Some ''https:'') ''https://example.com''
   \<and> sanitizeElementAttributes (\<lambda>u. Some ''https:'') [(''href'', ''https://example.com'')]
       = [(''href'', ''#'')]"
  by (simp add: sanitizeElementAttributes_def sanitizeAttr_def isSafeUrl_def urlAttributes_def
      allowed_protocols_def string_eval)

subsection \<open>The tree walk\<close>

text \<open>
  The loop against the recursion. Visiting the position of a node, with anything below it
  on the stack, comes back to that rest of the stack with the node replaced by its
  sanitized form and the tree otherwise as it was (\<open>walk_subtree\<close>); so the loop ends, and
  the fragment it leaves is the one the recursion computes.
\<close>

lemma update_at_append: "update_at f (p @ q) n = update_at (update_at f q) p n"
  by (induction "update_at f q" p n arbitrary: rule: update_at.induct) simp_all

lemma node_at_append:
  "node_at n (p @ q) = (case node_at n p of Some m \<Rightarrow> node_at m q | None \<Rightarrow> None)"
  by (induction p arbitrary: n) simp_all

lemma update_at_cong:
  "node_at n p = Some m \<Longrightarrow> f m = g m \<Longrightarrow> update_at f p n = update_at g p n"
proof (induction p arbitrary: n)
  case Nil
  then show ?case by simp
next
  case (Cons i p)
  then show ?case by (cases n) (simp_all split: if_splits)
qed

lemma node_at_update_at:
  "node_at n p = Some m \<Longrightarrow> node_at (update_at f p n) p = Some (f m)"
proof (induction p arbitrary: n)
  case Nil
  then show ?case by simp
next
  case (Cons i p)
  then show ?case by (cases n) (simp_all split: if_splits)
qed

lemma update_at_twice: "update_at g p (update_at f p n) = update_at (\<lambda>m. g (f m)) p n"
proof (induction p arbitrary: n)
  case Nil
  then show ?case by simp
next
  case (Cons i p)
  then show ?case by (cases n) simp_all
qed

lemma update_at_same:
  "node_at n p = Some m \<Longrightarrow> f m = m \<Longrightarrow> update_at f p n = n"
proof (induction p arbitrary: n)
  case Nil
  then show ?case by simp
next
  case (Cons i p)
  then show ?case by (cases n) (simp_all split: if_splits)
qed


lemma sanitize_each_length [simp]: "length (sanitize_each f indices xs) = length xs"
  unfolding sanitize_each_def by (induction indices arbitrary: xs) simp_all

lemma sanitize_each_nth:
  "distinct indices \<Longrightarrow> j < length xs \<Longrightarrow>
     sanitize_each f indices xs ! j = (if j \<in> set indices then f (xs ! j) else xs ! j)"
proof (induction indices arbitrary: xs)
  case Nil
  then show ?case by (simp add: sanitize_each_def)
next
  case (Cons i indices)
  have step: "sanitize_each f (i # indices) xs = sanitize_each f indices (xs[i := f (xs ! i)])"
    by (simp add: sanitize_each_def)
  from Cons.prems have d: "distinct indices" and ni: "i \<notin> set indices" by simp_all
  from Cons.prems have j: "j < length (xs[i := f (xs ! i)])" by simp
  show ?case
  proof (cases "j = i")
    case True
    with ni Cons.prems(2) show ?thesis
      unfolding step Cons.IH [OF d j] by simp
  next
    case False
    then have "xs[i := f (xs ! i)] ! j = xs ! j" by simp
    with False show ?thesis
      unfolding step Cons.IH [OF d j] by simp
  qed
qed

lemma sanitize_each_all:
  assumes "distinct indices"
    and "set indices = {i. i < length xs \<and> is_element (xs ! i)}"
    and "\<And>x. \<not> is_element x \<Longrightarrow> f x = x"
  shows "sanitize_each f indices xs = map f xs"
proof (rule nth_equalityI)
  show "length (sanitize_each f indices xs) = length (map f xs)" by simp
next
  fix j assume "j < length (sanitize_each f indices xs)"
  then have j: "j < length xs" by simp
  show "sanitize_each f indices xs ! j = map f xs ! j"
    using assms(2,3) j by (simp add: sanitize_each_nth [OF assms(1) j])
qed

lemma walk_Nil: "sanitize_walk protocol outerHTML [] tree = Some tree"
  by (simp add: sanitize_walk.simps)

lemma walk_Cons:
  "sanitize_walk protocol outerHTML (p # rest) tree =
     (case sanitize_visit protocol outerHTML p tree of
        (pushed, tree') \<Rightarrow> sanitize_walk protocol outerHTML (pushed @ rest) tree')"
  by (subst sanitize_walk.simps) simp

lemma walk_children:
  assumes sub: "\<And>k q rest tree. k \<in> set kept \<Longrightarrow> node_at tree q = Some k \<Longrightarrow>
      sanitize_walk protocol outerHTML (q # rest) tree
        = sanitize_walk protocol outerHTML rest (update_at (sanitizeNode protocol outerHTML) q tree)"
  shows "node_at tree p = Some (Element tag attrs cur) \<Longrightarrow> length cur = length kept \<Longrightarrow>
     \<forall>i \<in> set indices. i < length kept \<and> cur ! i = kept ! i \<Longrightarrow> distinct indices \<Longrightarrow>
     sanitize_walk protocol outerHTML (map (\<lambda>i. p @ [i]) indices @ rest) tree
       = sanitize_walk protocol outerHTML rest
           (update_at (\<lambda>n. Element tag attrs
              (sanitize_each (sanitizeNode protocol outerHTML) indices cur)) p tree)"
proof (induction indices arbitrary: tree cur)
  case Nil
  have "update_at (\<lambda>n. Element tag attrs cur) p tree = tree"
    using Nil.prems(1) by (rule update_at_same) simp
  then show ?case by (simp add: sanitize_each_def)
next
  case (Cons i indices)
  let ?S = "sanitizeNode protocol outerHTML"
  let ?cur = "cur[i := ?S (cur ! i)]"
  let ?tree = "update_at ?S (p @ [i]) tree"
  from Cons.prems have i: "i < length kept" "cur ! i = kept ! i" "i \<notin> set indices"
    and d: "distinct indices" by simp_all
  have at: "node_at tree (p @ [i]) = Some (kept ! i)"
    using Cons.prems(1,2) i by (simp add: node_at_append)
  have first: "sanitize_walk protocol outerHTML ((p @ [i]) # map (\<lambda>i. p @ [i]) indices @ rest) tree
      = sanitize_walk protocol outerHTML (map (\<lambda>i. p @ [i]) indices @ rest) ?tree"
    using i(1) at by (intro sub) simp_all
  have tree: "?tree = update_at (\<lambda>n. Element tag attrs ?cur) p tree"
    unfolding update_at_append
    using Cons.prems(1) by (rule update_at_cong) (use Cons.prems(2) i in simp)
  have at': "node_at ?tree p = Some (Element tag attrs ?cur)"
    unfolding tree using Cons.prems(1) by (rule node_at_update_at)
  have len: "length ?cur = length kept" using Cons.prems(2) by simp
  have agree: "\<forall>j \<in> set indices. j < length kept \<and> ?cur ! j = kept ! j"
  proof
    fix j assume j: "j \<in> set indices"
    with i(3) have "j \<noteq> i" by blast
    then have "?cur ! j = cur ! j" by simp
    with Cons.prems(3) j show "j < length kept \<and> ?cur ! j = kept ! j" by simp
  qed
  have "sanitize_walk protocol outerHTML (map (\<lambda>i. p @ [i]) indices @ rest) ?tree
      = sanitize_walk protocol outerHTML rest
          (update_at (\<lambda>n. Element tag attrs (sanitize_each ?S indices ?cur)) p ?tree)"
    using at' len agree d by (rule Cons.IH)
  also have "update_at (\<lambda>n. Element tag attrs (sanitize_each ?S indices ?cur)) p ?tree
      = update_at (\<lambda>n. Element tag attrs (sanitize_each ?S (i # indices) cur)) p tree"
    unfolding tree update_at_twice by (simp add: sanitize_each_def)
  finally show ?case using first by simp
qed

lemma element_indices:
  "distinct (rev (filter (\<lambda>i. is_element (xs ! i)) [0..<length xs]))"
  "set (rev (filter (\<lambda>i. is_element (xs ! i)) [0..<length xs])) = {i. i < length xs \<and> is_element (xs ! i)}"
  by auto

lemma sanitizeNode_other: "\<not> is_element n \<Longrightarrow> sanitizeNode protocol outerHTML n = n"
  by (cases n) simp_all

lemma walk_all_children:
  assumes sub: "\<And>k q rest tree. k \<in> set kept \<Longrightarrow> node_at tree q = Some k \<Longrightarrow>
      sanitize_walk protocol outerHTML (q # rest) tree
        = sanitize_walk protocol outerHTML rest (update_at (sanitizeNode protocol outerHTML) q tree)"
    and at: "node_at tree p = Some (Element tag attrs kept)"
  shows "sanitize_walk protocol outerHTML (push_children p kept @ rest) tree
       = sanitize_walk protocol outerHTML rest
           (update_at (\<lambda>n. Element tag attrs (map (sanitizeNode protocol outerHTML) kept)) p tree)"
proof -
  let ?is = "rev (filter (\<lambda>i. is_element (kept ! i)) [0..<length kept])"
  have "sanitize_walk protocol outerHTML (map (\<lambda>i. p @ [i]) ?is @ rest) tree
       = sanitize_walk protocol outerHTML rest
           (update_at (\<lambda>n. Element tag attrs
              (sanitize_each (sanitizeNode protocol outerHTML) ?is kept)) p tree)"
  proof (rule walk_children [where kept = kept])
    fix k q rest tree
    assume "k \<in> set kept" "node_at tree q = Some k"
    then show "sanitize_walk protocol outerHTML (q # rest) tree
        = sanitize_walk protocol outerHTML rest (update_at (sanitizeNode protocol outerHTML) q tree)"
      by (rule sub)
  next
    show "node_at tree p = Some (Element tag attrs kept)" by (rule at)
    show "length kept = length kept" ..
    show "\<forall>i \<in> set ?is. i < length kept \<and> kept ! i = kept ! i" by simp
    show "distinct ?is" by simp
  qed
  moreover have "sanitize_each (sanitizeNode protocol outerHTML) ?is kept
      = map (sanitizeNode protocol outerHTML) kept"
    using element_indices by (rule sanitize_each_all) (rule sanitizeNode_other)
  ultimately show ?thesis by (simp add: push_children_def rev_map)
qed

lemma walk_subtree:
  "node_at tree p = Some n \<Longrightarrow>
     sanitize_walk protocol outerHTML (p # rest) tree
       = sanitize_walk protocol outerHTML rest (update_at (sanitizeNode protocol outerHTML) p tree)"
proof (induction n arbitrary: p rest tree)
  case (Element tag attrs children)
  let ?S = "sanitizeNode protocol outerHTML"
  let ?kept = "filter (\<lambda>c. \<not> is_comment c) children"
  let ?attrs = "sanitizeElementAttributes protocol attrs"
  show ?case
  proof (cases "toUpperCase tag \<in> set blockedTags")
    case True
    have "update_at (blocked_warning outerHTML (toUpperCase tag)) p tree = update_at ?S p tree"
      using Element.prems by (rule update_at_cong) (use True in simp)
    with True Element.prems show ?thesis
      by (simp add: walk_Cons sanitize_visit_def)
  next
    case False
    let ?tree = "update_at (\<lambda>n. Element tag ?attrs ?kept) p tree"
    have sub: "\<And>k q rest tree. k \<in> set ?kept \<Longrightarrow> node_at tree q = Some k \<Longrightarrow>
        sanitize_walk protocol outerHTML (q # rest) tree = sanitize_walk protocol outerHTML rest (update_at ?S q tree)"
    proof -
      fix k q rest tree
      assume "k \<in> set ?kept" "node_at tree q = Some k"
      then have "k \<in> set children" "node_at tree q = Some k" by simp_all
      then show "sanitize_walk protocol outerHTML (q # rest) tree
          = sanitize_walk protocol outerHTML rest (update_at ?S q tree)"
        by (rule Element.IH)
    qed
    have at: "node_at ?tree p = Some (Element tag ?attrs ?kept)"
      using Element.prems by (rule node_at_update_at)
    have "sanitize_walk protocol outerHTML (p # rest) tree
        = sanitize_walk protocol outerHTML (push_children p ?kept @ rest) ?tree"
      using False Element.prems by (simp add: walk_Cons sanitize_visit_def Let_def)
    also have "\<dots> = sanitize_walk protocol outerHTML rest
        (update_at (\<lambda>n. Element tag ?attrs (map ?S ?kept)) p ?tree)"
      using sub at by (rule walk_all_children)
    also have "update_at (\<lambda>n. Element tag ?attrs (map ?S ?kept)) p ?tree = update_at ?S p tree"
      unfolding update_at_twice
      using Element.prems by (rule update_at_cong [symmetric]) (use False in simp)
    finally show ?thesis .
  qed
next
  case (Template attrs content)
  have "update_at (\<lambda>n. Template (sanitizeElementAttributes protocol attrs) content) p tree
      = update_at (sanitizeNode protocol outerHTML) p tree"
    using Template.prems by (rule update_at_cong) simp
  with Template.prems show ?case by (simp add: walk_Cons sanitize_visit_def)
next
  case (Text t)
  then have "update_at (sanitizeNode protocol outerHTML) p tree = tree"
    by (rule update_at_same) simp
  with Text show ?case by (simp add: walk_Cons sanitize_visit_def)
next
  case (Comment c)
  then have "update_at (sanitizeNode protocol outerHTML) p tree = tree"
    by (rule update_at_same) simp
  with Comment show ?case by (simp add: walk_Cons sanitize_visit_def)
qed

lemma sanitizeNodeTree_stack_returns:
  "sanitizeNodeTree_stack protocol outerHTML fragment
     = Some (sanitizeNodeTree protocol outerHTML fragment)"
proof -
  let ?kept = "filter (\<lambda>c. \<not> is_comment c) fragment"
  have "sanitize_walk protocol outerHTML (push_children [] ?kept @ []) (Element [] [] ?kept)
      = sanitize_walk protocol outerHTML []
          (update_at (\<lambda>n. Element [] [] (map (sanitizeNode protocol outerHTML) ?kept)) []
             (Element [] [] ?kept))"
    by (rule walk_all_children) (simp_all add: walk_subtree)
  then show ?thesis
    by (simp add: sanitizeNodeTree_stack_def sanitizeNodeTree_def walk_Nil)
qed

lemma toLowerChar_toUpperChar: "toLowerChar (toUpperChar c) = toLowerChar c"
  by (simp add: toLowerChar_def toUpperChar_def upper_letters_def lower_letters_def)

lemma toLowerCase_toUpperCase: "toLowerCase (toUpperCase s) = toLowerCase s"
  by (simp add: toLowerCase_def toUpperCase_def toLowerChar_toUpperChar)

lemma blocked_warning_is_notice:
  "is_notice tag (blocked_warning outerHTML (toUpperCase tag) n)"
  by (simp add: blocked_warning_def Let_def toLowerCase_toUpperCase)

lemma blocked_warning_clean: "clean (blocked_warning outerHTML tagName n)"
  by (simp add: blocked_warning_def Let_def blockedTags_def is_handler_def string_eval)

lemma sanitizeNode_clean: "clean (sanitizeNode protocol outerHTML n)"
proof (induction n)
  case (Element tag attrs children)
  show ?case
  proof (cases "toUpperCase tag \<in> set blockedTags")
    case True
    then show ?thesis by (simp add: blocked_warning_clean)
  next
    case False
    have "list_all clean (map (sanitizeNode protocol outerHTML) (filter (\<lambda>c. \<not> is_comment c) children))"
      using Element.IH by (simp add: list_all_iff)
    with False show ?thesis
      by (simp add: sanitizeElementAttributes_no_handler)
  qed
qed (simp_all add: sanitizeElementAttributes_no_handler)

lemma list_all2_map_same:
  "(\<And>x. x \<in> set xs \<Longrightarrow> P x (f x)) \<Longrightarrow> list_all2 P xs (map f xs)"
  by (induction xs) auto

lemma sanitizeNode_in_place:
  "\<not> is_comment n \<Longrightarrow> in_place n (sanitizeNode protocol outerHTML n)"
proof (induction n)
  case (Element tag attrs children)
  show ?case
  proof (cases "toUpperCase tag \<in> set blockedTags")
    case True
    then show ?thesis by (simp add: blocked_warning_is_notice)
  next
    case False
    have "list_all2 in_place (filter (\<lambda>c. \<not> is_comment c) children)
            (map (sanitizeNode protocol outerHTML) (filter (\<lambda>c. \<not> is_comment c) children))"
      using Element.IH by (intro list_all2_map_same) simp
    with False show ?thesis
      by (simp add: sanitizeElementAttributes_no_handler sanitizeElementAttributes_keeps_plain)
  qed
qed (simp_all add: sanitizeElementAttributes_no_handler sanitizeElementAttributes_keeps_plain)

lemma blocked_warning_one_notice:
  "notices (blocked_warning outerHTML tagName n) = 1"
  by (simp add: blocked_warning_def Let_def)

text \<open>
  C4, as the code has it. Whatever the input tree, the walk ends, and, following child
  nodes, nothing of what it leaves has a blocked tag or an event-handler attribute. What
  it leaves is the input node for node: every script, iframe, object, embed, audio or
  video element that the walk reaches has one notice where it stood, and all that was
  below it, further blocked elements included, is gone with it and has no notice of its
  own; every other element is still in its place with its tag and its plain attributes;
  text is untouched.
\<close>

theorem sanitizeNodeTree_blocks_and_strips:
  "sanitizeNodeTree_stack protocol outerHTML fragment
     = Some (sanitizeNodeTree protocol outerHTML fragment)
   \<and> list_all clean (sanitizeNodeTree protocol outerHTML fragment)
   \<and> list_all2 in_place (filter (\<lambda>c. \<not> is_comment c) fragment)
        (sanitizeNodeTree protocol outerHTML fragment)"
proof (intro conjI)
  show "sanitizeNodeTree_stack protocol outerHTML fragment
      = Some (sanitizeNodeTree protocol outerHTML fragment)"
    by (rule sanitizeNodeTree_stack_returns)
  show "list_all clean (sanitizeNodeTree protocol outerHTML fragment)"
    by (simp add: sanitizeNodeTree_def list_all_iff sanitizeNode_clean)
  show "list_all2 in_place (filter (\<lambda>c. \<not> is_comment c) fragment)
          (sanitizeNodeTree protocol outerHTML fragment)"
    unfolding sanitizeNodeTree_def
    by (intro list_all2_map_same) (simp add: sanitizeNode_in_place)
qed

text \<open>
  The specification's example: a \<^verbatim>\<open>script\<close> element inside a \<^verbatim>\<open>div\<close> that has an
  \<^verbatim>\<open>onclick\<close> handler.
\<close>

theorem sanitizeNodeTree_blocks_and_strips_witness:
  "sanitizeNodeTree_stack (\<lambda>u. None) (\<lambda>n. ''<script>alert(1)</script>'')
     [Element ''DIV'' [(''onclick'', ''steal()''), (''id'', ''box'')]
        [Element ''SCRIPT'' [] [Text ''alert(1)''], Text ''hello'']]
   = Some [Element ''DIV'' [(''id'', ''box'')]
        [Element ''PRE'' [(''class'', ''blocked-html-warning''), (''style'', warning_style)]
           [Text (''Blocked insecure <script> element removed.'' @ [CHR 0x0A, CHR 0x0A]
                  @ ''<script>alert(1)</script>'')],
         Text ''hello'']]
   \<and> list_all clean [Element ''DIV'' [(''id'', ''box'')]
        [Element ''PRE'' [(''class'', ''blocked-html-warning''), (''style'', warning_style)]
           [Text (''Blocked insecure <script> element removed.'' @ [CHR 0x0A, CHR 0x0A]
                  @ ''<script>alert(1)</script>'')],
         Text ''hello'']]"
proof -
  let ?input = "[Element ''DIV'' [(''onclick'', ''steal()''), (''id'', ''box'')]
        [Element ''SCRIPT'' [] [Text ''alert(1)''], Text ''hello'']]"
  have out: "sanitizeNodeTree (\<lambda>u. None) (\<lambda>n. ''<script>alert(1)</script>'') ?input
   = [Element ''DIV'' [(''id'', ''box'')]
        [Element ''PRE'' [(''class'', ''blocked-html-warning''), (''style'', warning_style)]
           [Text (''Blocked insecure <script> element removed.'' @ [CHR 0x0A, CHR 0x0A]
                  @ ''<script>alert(1)</script>'')],
         Text ''hello'']]"
    by (simp add: sanitizeNodeTree_def blocked_warning_def blockedTags_def
        sanitizeElementAttributes_def sanitizeAttr_def urlAttributes_def string_eval)
  from sanitizeNodeTree_blocks_and_strips
      [of "\<lambda>u. None" "\<lambda>n. ''<script>alert(1)</script>''" ?input]
  show ?thesis
    unfolding out by (intro conjI) (erule conjunct1, erule conjunct2 [THEN conjunct1])
qed

text \<open>
  The claim as written fails: an \<^verbatim>\<open>embed\<close> element inside an \<^verbatim>\<open>object\<close> element. Two
  elements are blocked and one notice is left, that of the \<^verbatim>\<open>object\<close>; the \<^verbatim>\<open>embed\<close>
  has gone with it.
\<close>

theorem nested_blocked_element_counterexample:
  "sanitizeNodeTree_stack (\<lambda>u. None) (\<lambda>n. ''<object><embed></object>'')
     [Element ''OBJECT'' [] [Element ''EMBED'' [] []]]
   = Some [Element ''PRE'' [(''class'', ''blocked-html-warning''), (''style'', warning_style)]
           [Text (''Blocked insecure <object> element removed.'' @ [CHR 0x0A, CHR 0x0A]
                  @ ''<object><embed></object>'')]]
   \<and> sum_list (map blocked_elements [Element ''OBJECT'' [] [Element ''EMBED'' [] []]]) = 2
   \<and> sum_list (map notices
         [Element ''PRE'' [(''class'', ''blocked-html-warning''), (''style'', warning_style)]
           [Text (''Blocked insecure <object> element removed.'' @ [CHR 0x0A, CHR 0x0A]
                  @ ''<object><embed></object>'')]]) = 1"
  by code_simp

text \<open>
  The content of a \<^verbatim>\<open>template\<close> element is not among its child nodes, and the walk does
  not go into it: here the template loses its own handler and keeps the script and the
  handler inside it.
\<close>

lemma template_content_not_walked:
  "sanitizeNodeTree_stack (\<lambda>u. None) (\<lambda>n. [])
     [Template [(''onfocus'', ''f()'')]
        [Element ''SCRIPT'' [] [Text ''alert(2)''], Element ''B'' [(''onclick'', ''g()'')] []]]
   = Some [Template []
        [Element ''SCRIPT'' [] [Text ''alert(2)''], Element ''B'' [(''onclick'', ''g()'')] []]]"
  by code_simp

section \<open>Properties of the task queue\<close>

subsection \<open>findIndex and splice\<close>

lemma findIndex_Some:
  "findIndex p xs = Some i \<Longrightarrow> i < length xs \<and> p (xs ! i) \<and> (\<forall>j < i. \<not> p (xs ! j))"
proof (induction xs arbitrary: i)
  case Nil
  then show ?case by simp
next
  case (Cons x xs)
  show ?case
  proof (cases "p x")
    case True
    with Cons.prems show ?thesis by simp
  next
    case False
    with Cons.prems obtain k where k: "findIndex p xs = Some k" "i = Suc k"
      by (auto split: option.splits)
    from Cons.IH [OF k(1)] False k(2) show ?thesis
      by (auto simp: nth_Cons split: nat.splits)
  qed
qed

lemma findIndex_None: "findIndex p xs = None \<longleftrightarrow> (\<forall>x \<in> set xs. \<not> p x)"
  by (induction xs) (auto split: option.splits)


lemma not_drainable_Fetching: "\<not> drainable t \<longleftrightarrow> task_status t = Fetching"
  by (cases "task_status t") (auto simp: drainable_def)

subsection \<open>What the side fetches do to a task\<close>

lemma task_id_settle [simp]: "task_id (settle out t) = task_id t"
  by (cases out) (simp_all add: setReady_def setError_def)

lemma task_status_settle: "task_status (settle out t) \<noteq> Fetching"
  by (cases out) (simp_all add: setReady_def setError_def)

lemma task_id_deliver [simp]: "task_id (deliver pending n t) = task_id t"
  by (simp add: deliver_def split: option.splits)

lemma deliver_not_Fetching:
  "task_status t \<noteq> Fetching \<Longrightarrow> deliver pending n t = t"
  by (simp add: deliver_def)

lemma deliver_still_Fetching:
  "task_status (deliver pending n t) = Fetching \<Longrightarrow> task_status t = Fetching"
  by (auto simp: deliver_def task_status_settle split: if_splits option.splits)

lemma task_callback_settle [simp]: "task_callback (settle out t) = task_callback t"
  by (cases out) (simp_all add: setReady_def setError_def)

lemma task_callback_deliver [simp]: "task_callback (deliver pending n t) = task_callback t"
  by (simp add: deliver_def split: option.splits)

lemma settled_deliver [simp]: "settled pending (deliver pending n t) = settled pending t"
  by (auto simp: settled_def deliver_def task_status_settle split: option.splits)

lemma settled_drainable: "drainable t \<Longrightarrow> settled pending t = t"
  by (auto simp: settled_def drainable_def)

lemma settled_not_Fetching:
  "task_status t = Fetching \<longrightarrow> pending (task_id t) \<noteq> None \<Longrightarrow>
     task_status (settled pending t) \<noteq> Fetching"
  by (auto simp: settled_def task_status_settle)

subsection \<open>Draining one task\<close>

lemma report_thrown_reportable:
  "reportable e \<Longrightarrow> \<exists>doc'. report_thrown translate t e doc = Inr doc'"
  by (cases e) (simp_all add: report_thrown_def Let_def)

lemma drain_returns:
  assumes "\<forall>d doc e. task_callback t d doc = Inl e \<longrightarrow> reportable e"
  shows "\<exists>doc'. drain translate t doc = Inr doc'"
proof (cases "task_status t = Error")
  case True
  then show ?thesis by (simp add: drain_def)
next
  case False
  show ?thesis
  proof (cases "task_callback t (task_data t) doc")
    case (Inr doc')
    with False show ?thesis by (simp add: drain_def)
  next
    case (Inl e)
    with assms have "reportable e" by blast
    from report_thrown_reportable [OF this, of translate t doc] Inl False
    show ?thesis by (simp add: drain_def)
  qed
qed


subsection \<open>One turn of the loop\<close>

text \<open>The queue without the task at position \<open>i\<close>: what \<^verbatim>\<open>splice(i, 1)\<close> leaves.\<close>

abbreviation spliced :: "nat \<Rightarrow> 'a list \<Rightarrow> 'a list" where
  "spliced i q \<equiv> take i q @ drop (Suc i) q"

lemma iteration_drains:
  assumes "findIndex drainable (asyncTaskQueue pg) = Some i"
    and "drain translate (asyncTaskQueue pg ! i) (live pg) = Inr doc"
  shows "\<exists>pg'. iteration translate pending totalTasks (c, pg) = Inr (Continue (Suc c, pg'))
           \<and> live pg' = doc
           \<and> progress pg' = Some (Suc c, totalTasks)
           \<and> drained pg' = drained pg @ [asyncTaskQueue pg ! i]
           \<and> indicator_hidden pg' = indicator_hidden pg
           \<and> asyncTaskQueue pg'
               = (if task_status (asyncTaskQueue pg ! i) = Error then spliced i (asyncTaskQueue pg)
                  else map (deliver pending (Suc (now pg))) (spliced i (asyncTaskQueue pg)))
           \<and> now pg'
               = (if task_status (asyncTaskQueue pg ! i) = Error then now pg else Suc (now pg))"
  using assms
  by (cases "task_status (asyncTaskQueue pg ! i) = Error")
     (auto simp: iteration_def drain_def Let_def updateProgress_def await_def split: sum.splits)


lemma iteration_polls:
  assumes "findIndex drainable (asyncTaskQueue pg) = None" and "asyncTaskQueue pg \<noteq> []"
  shows "iteration translate pending totalTasks (c, pg) = Inr (Continue (c, await pending pg))"
proof -
  from assms(1) have "\<forall>t \<in> set (asyncTaskQueue pg). task_status t = Fetching"
    by (simp add: findIndex_None not_drainable_Fetching)
  then have "filter (\<lambda>t. task_status t = Fetching) (asyncTaskQueue pg) = asyncTaskQueue pg"
    by (simp add: filter_id_conv)
  with assms show ?thesis
    by (simp add: iteration_def Let_def)
qed
subsection \<open>The loop ends\<close>

text \<open>
  The work left in a queue: one for every task, and for a task still fetching one more
  plus the suspension points until its retrieval is due.
\<close>

definition weight :: "fetches \<Rightarrow> nat \<Rightarrow> task \<Rightarrow> nat" where
  "weight pending n t =
     (if task_status t = Fetching then
        (case pending (task_id t) of Some (due, outcome) \<Rightarrow> Suc (due - n) | None \<Rightarrow> 0)
      else 0)"

definition work :: "fetches \<Rightarrow> page \<Rightarrow> nat" where
  "work pending pg =
     length (asyncTaskQueue pg) + sum_list (map (weight pending (now pg)) (asyncTaskQueue pg))"

text \<open>Every retrieval in flight settles at some point.\<close>

definition all_settle :: "fetches \<Rightarrow> task list \<Rightarrow> bool" where
  "all_settle pending q = list_all (\<lambda>t. task_status t = Fetching \<longrightarrow> pending (task_id t) \<noteq> None) q"

lemma weight_deliver_le:
  "weight pending (Suc n) (deliver pending (Suc n) t) \<le> weight pending n t"
  by (auto simp: weight_def deliver_def task_status_settle split: option.splits)

lemma weight_deliver_less:
  assumes "task_status t = Fetching" and "pending (task_id t) \<noteq> None"
  shows "weight pending (Suc n) (deliver pending (Suc n) t) < weight pending n t"
proof -
  from assms(2) obtain due outcome where p: "pending (task_id t) = Some (due, outcome)"
    by auto
  show ?thesis
  proof (cases "due \<le> Suc n")
    case True
    then show ?thesis
      using assms(1) p by (simp add: weight_def deliver_def task_status_settle)
  next
    case False
    then show ?thesis
      using assms(1) p by (simp add: weight_def deliver_def)
  qed
qed

lemma sum_weight_deliver_le:
  "sum_list (map (weight pending (Suc n)) (map (deliver pending (Suc n)) q))
     \<le> sum_list (map (weight pending n) q)"
  by (induction q) (simp_all add: add_mono weight_deliver_le)

lemma sum_weight_deliver_less:
  assumes "q \<noteq> []" and "\<forall>t \<in> set q. task_status t = Fetching" and "all_settle pending q"
  shows "sum_list (map (weight pending (Suc n)) (map (deliver pending (Suc n)) q))
     < sum_list (map (weight pending n) q)"
proof -
  have "sum_list (map (\<lambda>t. weight pending (Suc n) (deliver pending (Suc n) t)) q)
          < sum_list (map (weight pending n) q)"
  proof (rule sum_list_strict_mono [OF assms(1)])
    fix t assume "t \<in> set q"
    with assms(2,3) show "weight pending (Suc n) (deliver pending (Suc n) t) < weight pending n t"
      by (auto simp: all_settle_def list_all_iff intro: weight_deliver_less)
  qed
  then show ?thesis by (simp add: comp_def)
qed

lemma sum_weight_spliced:
  assumes "i < length q"
  shows "sum_list (map (weight pending n) (spliced i q)) \<le> sum_list (map (weight pending n) q)"
proof -
  have "sum_list (map (weight pending n) (spliced i q))
          \<le> sum_list (map (weight pending n) (take i q @ (q ! i) # drop (Suc i) q))"
    by simp
  then show ?thesis
    using assms by (simp only: id_take_nth_drop [symmetric])
qed

lemma all_settle_spliced: "all_settle pending q \<Longrightarrow> all_settle pending (spliced i q)"
  by (auto simp: all_settle_def list_all_iff dest: in_set_takeD in_set_dropD)

lemma all_settle_deliver: "all_settle pending q \<Longrightarrow> all_settle pending (map (deliver pending n) q)"
  by (auto simp: all_settle_def list_all_iff dest: deliver_still_Fetching)

lemma catches_spliced:
  "\<forall>t \<in> set q. \<forall>d doc e. task_callback t d doc = Inl e \<longrightarrow> reportable e \<Longrightarrow>
   \<forall>t \<in> set (spliced i q). \<forall>d doc e. task_callback t d doc = Inl e \<longrightarrow> reportable e"
  by (auto dest: in_set_takeD in_set_dropD)

lemma mset_settled_spliced:
  assumes "i < length q" and "drainable (q ! i)"
  shows "mset (map (settled pending) q)
      = add_mset (q ! i) (mset (map (settled pending) (spliced i q)))"
proof -
  have "q = take i q @ (q ! i) # drop (Suc i) q"
    using assms(1) by (rule id_take_nth_drop)
  then have "mset (map (settled pending) q)
      = mset (map (settled pending) (take i q @ (q ! i) # drop (Suc i) q))"
    by simp
  also have "\<dots> = add_mset (settled pending (q ! i)) (mset (map (settled pending) (spliced i q)))"
    by simp
  finally show ?thesis
    using assms(2) by (simp add: settled_drainable)
qed

lemma catches_deliver:
  assumes "\<forall>t \<in> set q. \<forall>d doc e. task_callback t d doc = Inl e \<longrightarrow> reportable e"
  shows "\<forall>t \<in> set (map (deliver pending n) q).
           \<forall>d doc e. task_callback t d doc = Inl e \<longrightarrow> reportable e"
proof (intro ballI allI impI)
  fix t d doc e
  assume "t \<in> set (map (deliver pending n) q)" and thrown: "task_callback t d doc = Inl e"
  then obtain u where u: "u \<in> set q" "t = deliver pending n u" by auto
  with thrown have "task_callback u d doc = Inl e" by simp
  with assms u(1) show "reportable e" by blast
qed

lemma map_settled_deliver:
  "map (settled pending) (map (deliver pending n) q) = map (settled pending) q"
  by simp

lemma drainLoop_total:
  assumes "all_settle pending (asyncTaskQueue pg)"
    and "\<forall>t \<in> set (asyncTaskQueue pg). \<forall>d doc e. task_callback t d doc = Inl e \<longrightarrow> reportable e"
  shows "\<exists>pg' new. drainLoop translate pending totalTasks (c, pg)
              = Some (Inr (c + length (asyncTaskQueue pg), pg'))
           \<and> asyncTaskQueue pg' = []
           \<and> (asyncTaskQueue pg \<noteq> []
                \<longrightarrow> progress pg' = Some (c + length (asyncTaskQueue pg), totalTasks))
           \<and> indicator_hidden pg' = indicator_hidden pg
           \<and> drained pg' = drained pg @ new
           \<and> mset new = mset (map (settled pending) (asyncTaskQueue pg))
           \<and> drain_all translate new (live pg) = Inr (live pg')"
  using assms
proof (induction "work pending pg" arbitrary: c pg rule: less_induct)
  case less
  let ?q = "asyncTaskQueue pg"
  show ?case
  proof (cases "?q = []")
    case True
    then have "drainLoop translate pending totalTasks (c, pg) = Some (Inr (c + length ?q, pg))
        \<and> asyncTaskQueue pg = []
        \<and> (?q \<noteq> [] \<longrightarrow> progress pg = Some (c + length ?q, totalTasks))
        \<and> indicator_hidden pg = indicator_hidden pg
        \<and> drained pg = drained pg @ []
        \<and> mset [] = mset (map (settled pending) ?q)
        \<and> drain_all translate [] (live pg) = Inr (live pg)"
      by (simp add: drainLoop.simps)
    then show ?thesis by blast
  next
    case nonempty: False
    show ?thesis
    proof (cases "findIndex drainable ?q")
      case None
      have it: "iteration translate pending totalTasks (c, pg) = Inr (Continue (c, await pending pg))"
        using None nonempty by (rule iteration_polls)
      have fetching: "\<forall>t \<in> set ?q. task_status t = Fetching"
        using None by (simp add: findIndex_None not_drainable_Fetching)
      have "work pending (await pending pg) < work pending pg"
        using sum_weight_deliver_less [OF nonempty fetching less.prems(1), of "now pg"]
        by (simp add: work_def await_def Let_def)
      moreover have "all_settle pending (asyncTaskQueue (await pending pg))"
        using less.prems(1) by (simp add: await_def Let_def all_settle_deliver)
      moreover have "\<forall>t \<in> set (asyncTaskQueue (await pending pg)).
          \<forall>d doc e. task_callback t d doc = Inl e \<longrightarrow> reportable e"
        using catches_deliver [OF less.prems(2), of pending "Suc (now pg)"]
        by (simp add: await_def Let_def)
      ultimately obtain pg' new where
        run: "drainLoop translate pending totalTasks (c, await pending pg)
           = Some (Inr (c + length (asyncTaskQueue (await pending pg)), pg'))"
        and e: "asyncTaskQueue pg' = []"
        and p: "asyncTaskQueue (await pending pg) \<noteq> []
           \<longrightarrow> progress pg' = Some (c + length (asyncTaskQueue (await pending pg)), totalTasks)"
        and h: "indicator_hidden pg' = indicator_hidden (await pending pg)"
        and d: "drained pg' = drained (await pending pg) @ new"
        and m: "mset new = mset (map (settled pending) (asyncTaskQueue (await pending pg)))"
        and l: "drain_all translate new (live (await pending pg)) = Inr (live pg')"
        using less.hyps [of "await pending pg" c] by blast
      have aw: "asyncTaskQueue (await pending pg) = map (deliver pending (Suc (now pg))) ?q"
        "live (await pending pg) = live pg" "drained (await pending pg) = drained pg"
        "indicator_hidden (await pending pg) = indicator_hidden pg"
        by (simp_all add: await_def Let_def)
      have "drainLoop translate pending totalTasks (c, pg) = Some (Inr (c + length ?q, pg'))"
        using nonempty it run by (subst drainLoop.simps) (simp add: aw)
      moreover have "?q \<noteq> [] \<longrightarrow> progress pg' = Some (c + length ?q, totalTasks)"
        using p nonempty by (simp add: aw)
      moreover have "mset new = mset (map (settled pending) ?q)"
        using m unfolding aw map_settled_deliver .
      moreover have "drain_all translate new (live pg) = Inr (live pg')"
        using l by (simp add: aw)
      moreover have "drained pg' = drained pg @ new" "indicator_hidden pg' = indicator_hidden pg"
        using d h by (simp_all add: aw)
      ultimately show ?thesis using e by blast
    next
      case (Some i)
      from findIndex_Some [OF Some] have i: "i < length ?q" and dr_i: "drainable (?q ! i)"
        by simp_all
      from i have mem: "?q ! i \<in> set ?q" by simp
      with less.prems(2) have "\<forall>d doc e. task_callback (?q ! i) d doc = Inl e \<longrightarrow> reportable e"
        by blast
      from drain_returns [OF this, of translate "live pg"] obtain doc where
        doc: "drain translate (?q ! i) (live pg) = Inr doc" by blast
      from iteration_drains [OF Some doc, of pending totalTasks c]
      obtain pg1 where
        it: "iteration translate pending totalTasks (c, pg) = Inr (Continue (Suc c, pg1))"
        and lv: "live pg1 = doc"
        and pr: "progress pg1 = Some (Suc c, totalTasks)"
        and dr: "drained pg1 = drained pg @ [?q ! i]"
        and ind: "indicator_hidden pg1 = indicator_hidden pg"
        and q1: "asyncTaskQueue pg1
               = (if task_status (?q ! i) = Error then spliced i ?q
                  else map (deliver pending (Suc (now pg))) (spliced i ?q))"
        and n1: "now pg1 = (if task_status (?q ! i) = Error then now pg else Suc (now pg))"
        by blast
      have len: "length (asyncTaskQueue pg1) = length ?q - 1"
        using q1 i by auto
      have "sum_list (map (weight pending (now pg1)) (asyncTaskQueue pg1))
              \<le> sum_list (map (weight pending (now pg)) ?q)"
      proof (cases "task_status (?q ! i) = Error")
        case True
        with q1 n1 sum_weight_spliced [OF i, of pending "now pg"] show ?thesis by simp
      next
        case False
        have "sum_list (map (weight pending (Suc (now pg)))
                (map (deliver pending (Suc (now pg))) (spliced i ?q)))
              \<le> sum_list (map (weight pending (now pg)) (spliced i ?q))"
          by (rule sum_weight_deliver_le)
        also have "\<dots> \<le> sum_list (map (weight pending (now pg)) ?q)"
          using i by (rule sum_weight_spliced)
        finally show ?thesis using False q1 n1 by simp
      qed
      then have smaller: "work pending pg1 < work pending pg"
        using len i by (simp add: work_def)
      have sp: "all_settle pending (spliced i ?q)"
        using less.prems(1) by (rule all_settle_spliced)
      have settle1: "all_settle pending (asyncTaskQueue pg1)"
        using q1 sp all_settle_deliver [of pending "spliced i ?q" "Suc (now pg)"] by simp
      have cs: "\<forall>t \<in> set (spliced i ?q). \<forall>d doc e. task_callback t d doc = Inl e \<longrightarrow> reportable e"
        using less.prems(2) by (rule catches_spliced)
      have catch1: "\<forall>t \<in> set (asyncTaskQueue pg1).
          \<forall>d doc e. task_callback t d doc = Inl e \<longrightarrow> reportable e"
      proof (cases "task_status (?q ! i) = Error")
        case True
        with q1 cs show ?thesis by simp
      next
        case False
        with q1 catches_deliver [OF cs, of pending "Suc (now pg)"] show ?thesis by simp
      qed
      from less.hyps [OF smaller settle1 catch1, of "Suc c"] obtain pg' new where
        run: "drainLoop translate pending totalTasks (Suc c, pg1)
           = Some (Inr (Suc c + length (asyncTaskQueue pg1), pg'))"
        and e: "asyncTaskQueue pg' = []"
        and p: "asyncTaskQueue pg1 \<noteq> []
           \<longrightarrow> progress pg' = Some (Suc c + length (asyncTaskQueue pg1), totalTasks)"
        and h: "indicator_hidden pg' = indicator_hidden pg1"
        and d: "drained pg' = drained pg1 @ new"
        and m: "mset new = mset (map (settled pending) (asyncTaskQueue pg1))"
        and l: "drain_all translate new (live pg1) = Inr (live pg')"
        by blast
      have count: "Suc c + length (asyncTaskQueue pg1) = c + length ?q"
        using len i by simp
      have prog: "progress pg' = Some (c + length ?q, totalTasks)"
      proof (cases "asyncTaskQueue pg1 = []")
        case True
        then have "pg' = pg1"
          using run by (simp add: drainLoop.simps)
        with pr True count show ?thesis by simp
      next
        case False
        with p count show ?thesis by simp
      qed
      have loop: "drainLoop translate pending totalTasks (c, pg) = Some (Inr (c + length ?q, pg'))"
        using nonempty it run count by (subst drainLoop.simps) simp
      have "map (settled pending) (asyncTaskQueue pg1) = map (settled pending) (spliced i ?q)"
      proof (cases "task_status (?q ! i) = Error")
        case True
        with q1 show ?thesis by simp
      next
        case False
        with q1 have "asyncTaskQueue pg1 = map (deliver pending (Suc (now pg))) (spliced i ?q)"
          by simp
        then show ?thesis by (simp only: map_settled_deliver)
      qed
      then have "mset (map (settled pending) (asyncTaskQueue pg1))
          = mset (map (settled pending) (spliced i ?q))"
        by (rule arg_cong)
      then have ms: "mset (?q ! i # new) = mset (map (settled pending) ?q)"
        using m mset_settled_spliced [OF i dr_i, of pending] by simp
      have all: "drain_all translate (?q ! i # new) (live pg) = Inr (live pg')"
        using doc l lv by simp
      have dd: "drained pg' = drained pg @ (?q ! i # new)"
        using d dr by simp
      have hh: "indicator_hidden pg' = indicator_hidden pg"
        using h ind by simp
      from loop e prog hh dd ms all show ?thesis by blast
    qed
  qed
qed
subsection \<open>Only drainable tasks are drained\<close>





text \<open>
  C2, as the code has it. A non-empty queue whose retrievals all settle, and whose
  callbacks throw nothing but values with a readable message, is drained to the end: the
  run returns, the queue is empty, the indicator is hidden, the progress last shown is
  the initial total out of the initial total, and the document is the one left by
  draining every queued task once, each as its retrieval left it. A ready task whose
  callback throws such a value takes the same turn as any other: the exception is caught,
  the error report is spliced in at its placeholder, and the count goes up by one.
\<close>

theorem drain_completeness:
  assumes "asyncTaskQueue pg \<noteq> []" and "all_settle pending (asyncTaskQueue pg)"
    and "\<forall>t \<in> set (asyncTaskQueue pg). \<forall>d doc e. task_callback t d doc = Inl e \<longrightarrow> reportable e"
  shows "(\<exists>final new. processAsyncTasks translate pending pg = Some (Inr final)
            \<and> asyncTaskQueue final = []
            \<and> progress final = Some (length (asyncTaskQueue pg), length (asyncTaskQueue pg))
            \<and> indicator_hidden final
            \<and> drained final = drained pg @ new
            \<and> mset new = mset (map (settled pending) (asyncTaskQueue pg))
            \<and> list_all (\<lambda>t. task_status t \<noteq> Fetching) new
            \<and> drain_all translate new (live pg) = Inr (live final))
       \<and> (\<forall>i err. findIndex drainable (asyncTaskQueue pg) = Some i
              \<and> task_status (asyncTaskQueue pg ! i) = Ready
              \<and> task_callback (asyncTaskQueue pg ! i) (task_data (asyncTaskQueue pg ! i)) (live pg)
                  = Inl (Thrown err)
            \<longrightarrow> (\<exists>pg'. iteration translate pending totalTasks (c, pg) = Inr (Continue (c + 1, pg'))
                   \<and> live pg' = replace_placeholder (task_id (asyncTaskQueue pg ! i))
                        (ErrorReport (translate ''async_task_processing_error'' [escapeHtml (message err)]))
                        (live pg)
                   \<and> progress pg' = Some (c + 1, totalTasks)
                   \<and> asyncTaskQueue pg'
                        = map (deliver pending (Suc (now pg))) (spliced i (asyncTaskQueue pg))))"
proof (intro conjI allI impI)
  let ?n = "length (asyncTaskQueue pg)"
  let ?pg1 = "updateProgress 0 ?n (pg\<lparr>indicator_hidden := False\<rparr>)"
  have q1: "asyncTaskQueue ?pg1 = asyncTaskQueue pg" and d1: "drained ?pg1 = drained pg"
    and l1: "live ?pg1 = live pg"
    by (simp_all add: updateProgress_def)
  from assms(2,3) have "all_settle pending (asyncTaskQueue ?pg1)"
    "\<forall>t \<in> set (asyncTaskQueue ?pg1). \<forall>d doc e. task_callback t d doc = Inl e \<longrightarrow> reportable e"
    unfolding q1 by simp_all
  from drainLoop_total [OF this, of translate ?n 0] obtain pg' new where
    run: "drainLoop translate pending ?n (0, ?pg1) = Some (Inr (?n, pg'))"
    and e: "asyncTaskQueue pg' = []"
    and p: "progress pg' = Some (?n, ?n)"
    and d: "drained pg' = drained pg @ new"
    and m: "mset new = mset (map (settled pending) (asyncTaskQueue pg))"
    and l: "drain_all translate new (live pg) = Inr (live pg')"
    using assms(1) unfolding q1 d1 l1 by auto
  have "\<forall>t \<in> set (map (settled pending) (asyncTaskQueue pg)). task_status t \<noteq> Fetching"
  proof
    fix u assume "u \<in> set (map (settled pending) (asyncTaskQueue pg))"
    then obtain t where t: "t \<in> set (asyncTaskQueue pg)" "u = settled pending t" by auto
    from assms(2) t(1) have "task_status t = Fetching \<longrightarrow> pending (task_id t) \<noteq> None"
      by (simp add: all_settle_def list_all_iff)
    then show "task_status u \<noteq> Fetching"
      unfolding t(2) by (rule settled_not_Fetching)
  qed
  then have "\<forall>t \<in># mset (map (settled pending) (asyncTaskQueue pg)). task_status t \<noteq> Fetching"
    by simp
  then have "\<forall>t \<in># mset new. task_status t \<noteq> Fetching"
    unfolding m .
  then have nf: "list_all (\<lambda>t. task_status t \<noteq> Fetching) new"
    by (simp add: list_all_iff)
  have "processAsyncTasks translate pending pg = Some (Inr (pg'\<lparr>indicator_hidden := True\<rparr>))"
    using assms(1) run by (simp add: processAsyncTasks_def Let_def)
  with e p d m nf l
  have "processAsyncTasks translate pending pg = Some (Inr (pg'\<lparr>indicator_hidden := True\<rparr>))
            \<and> asyncTaskQueue (pg'\<lparr>indicator_hidden := True\<rparr>) = []
            \<and> progress (pg'\<lparr>indicator_hidden := True\<rparr>) = Some (?n, ?n)
            \<and> indicator_hidden (pg'\<lparr>indicator_hidden := True\<rparr>)
            \<and> drained (pg'\<lparr>indicator_hidden := True\<rparr>) = drained pg @ new
            \<and> mset new = mset (map (settled pending) (asyncTaskQueue pg))
            \<and> list_all (\<lambda>t. task_status t \<noteq> Fetching) new
            \<and> drain_all translate new (live pg) = Inr (live (pg'\<lparr>indicator_hidden := True\<rparr>))"
    by simp
  then show "\<exists>final new. processAsyncTasks translate pending pg = Some (Inr final)
            \<and> asyncTaskQueue final = []
            \<and> progress final = Some (?n, ?n)
            \<and> indicator_hidden final
            \<and> drained final = drained pg @ new
            \<and> mset new = mset (map (settled pending) (asyncTaskQueue pg))
            \<and> list_all (\<lambda>t. task_status t \<noteq> Fetching) new
            \<and> drain_all translate new (live pg) = Inr (live final)"
    by blast
next
  fix i err
  assume a: "findIndex drainable (asyncTaskQueue pg) = Some i
              \<and> task_status (asyncTaskQueue pg ! i) = Ready
              \<and> task_callback (asyncTaskQueue pg ! i) (task_data (asyncTaskQueue pg ! i)) (live pg)
                  = Inl (Thrown err)"
  then show "\<exists>pg'. iteration translate pending totalTasks (c, pg) = Inr (Continue (c + 1, pg'))
                   \<and> live pg' = replace_placeholder (task_id (asyncTaskQueue pg ! i))
                        (ErrorReport (translate ''async_task_processing_error'' [escapeHtml (message err)]))
                        (live pg)
                   \<and> progress pg' = Some (c + 1, totalTasks)
                   \<and> asyncTaskQueue pg'
                        = map (deliver pending (Suc (now pg))) (spliced i (asyncTaskQueue pg))"
    by (simp add: iteration_def Let_def updateProgress_def await_def report_thrown_def
        error_pre_def or_else_def replace_placeholder_def)
qed

text \<open>
  The specification's example: five tasks of which the third throws. Here the first is
  still \<^verbatim>\<open>fetching\<close> when the loop starts; it is drained third, once its retrieval has
  settled. All five are drained and counted, and the third placeholder carries the error
  report. The second part is instantiated at a queue whose only task throws.
\<close>

theorem drain_completeness_witness:
  "asyncTaskQueue five_tasks \<noteq> []
   \<and> all_settle one_retrieval (asyncTaskQueue five_tasks)
   \<and> (\<exists>final. processAsyncTasks echo_translate one_retrieval five_tasks = Some (Inr final)
         \<and> asyncTaskQueue final = []
         \<and> progress final = Some (5, 5)
         \<and> indicator_hidden final
         \<and> live final = [Markup ''rendered'', Markup ''rendered'',
                          ErrorReport ''async_task_processing_error:render failed'',
                          Markup ''rendered'', Markup ''rendered'']
         \<and> map task_id (drained final)
              = [''async-placeholder-2'', ''async-placeholder-3'', ''async-placeholder-1'',
                 ''async-placeholder-4'', ''async-placeholder-5''])
   \<and> (\<exists>pg'. iteration echo_translate (\<lambda>i. None) 1 (0, one_throwing) = Inr (Continue (1, pg'))
         \<and> live pg' = [ErrorReport ''async_task_processing_error:render failed'']
         \<and> progress pg' = Some (1, 1))"
proof -
  have ne: "asyncTaskQueue five_tasks \<noteq> []" by code_simp
  have st: "all_settle one_retrieval (asyncTaskQueue five_tasks)" by code_simp
  have len: "length (asyncTaskQueue five_tasks) = 5" by code_simp
  have ca: "\<forall>t \<in> set (asyncTaskQueue five_tasks).
      \<forall>d doc e. task_callback t d doc = Inl e \<longrightarrow> reportable e"
    by (auto simp: five_tasks_def example_page_def example_task_def splice_done_def throwing_def)
  from drain_completeness [OF ne st ca, of echo_translate, THEN conjunct1] obtain final where
    run: "processAsyncTasks echo_translate one_retrieval five_tasks = Some (Inr final)"
    and e: "asyncTaskQueue final = []"
    and p: "progress final = Some (5, 5)"
    and h: "indicator_hidden final"
    unfolding len by blast
  have "map_option (map_sum (\<lambda>e. e) (\<lambda>p. (live p, map task_id (drained p))))
     (processAsyncTasks echo_translate one_retrieval five_tasks)
   = Some (Inr ([Markup ''rendered'', Markup ''rendered'',
            ErrorReport ''async_task_processing_error:render failed'',
            Markup ''rendered'', Markup ''rendered''],
           [''async-placeholder-2'', ''async-placeholder-3'', ''async-placeholder-1'',
            ''async-placeholder-4'', ''async-placeholder-5'']))"
    by code_simp
  with run have l: "live final = [Markup ''rendered'', Markup ''rendered'',
                          ErrorReport ''async_task_processing_error:render failed'',
                          Markup ''rendered'', Markup ''rendered'']"
    and d: "map task_id (drained final)
              = [''async-placeholder-2'', ''async-placeholder-3'', ''async-placeholder-1'',
                 ''async-placeholder-4'', ''async-placeholder-5'']"
    by simp_all
  have five: "\<exists>final. processAsyncTasks echo_translate one_retrieval five_tasks = Some (Inr final)
         \<and> asyncTaskQueue final = []
         \<and> progress final = Some (5, 5)
         \<and> indicator_hidden final
         \<and> live final = [Markup ''rendered'', Markup ''rendered'',
                          ErrorReport ''async_task_processing_error:render failed'',
                          Markup ''rendered'', Markup ''rendered'']
         \<and> map task_id (drained final)
              = [''async-placeholder-2'', ''async-placeholder-3'', ''async-placeholder-1'',
                 ''async-placeholder-4'', ''async-placeholder-5'']"
    by (intro exI conjI) (rule run, rule e, rule p, rule h, rule l, rule d)
  have ne1: "asyncTaskQueue one_throwing \<noteq> []" by code_simp
  have st1: "all_settle (\<lambda>i. None) (asyncTaskQueue one_throwing)" by code_simp
  have ca1: "\<forall>t \<in> set (asyncTaskQueue one_throwing).
      \<forall>d doc e. task_callback t d doc = Inl e \<longrightarrow> reportable e"
    by (auto simp: one_throwing_def example_page_def example_task_def throwing_def)
  have hyp: "findIndex drainable (asyncTaskQueue one_throwing) = Some 0
              \<and> task_status (asyncTaskQueue one_throwing ! 0) = Ready
              \<and> task_callback (asyncTaskQueue one_throwing ! 0)
                   (task_data (asyncTaskQueue one_throwing ! 0)) (live one_throwing)
                 = Inl (Thrown (JsError ''render failed''))"
    by (simp add: one_throwing_def example_page_def example_task_def throwing_def drainable_def)
  from drain_completeness [OF ne1 st1 ca1, of echo_translate 1 0, THEN conjunct2, rule_format, OF hyp]
  obtain pg' where
    it: "iteration echo_translate (\<lambda>i. None) 1 (0, one_throwing) = Inr (Continue (0 + 1, pg'))"
    and lv: "live pg' = replace_placeholder (task_id (asyncTaskQueue one_throwing ! 0))
                        (ErrorReport (echo_translate ''async_task_processing_error''
                           [escapeHtml (message (JsError ''render failed''))]))
                        (live one_throwing)"
    and pr: "progress pg' = Some (0 + 1, 1)"
    by blast
  have "replace_placeholder (task_id (asyncTaskQueue one_throwing ! 0))
                        (ErrorReport (echo_translate ''async_task_processing_error''
                           [escapeHtml (message (JsError ''render failed''))]))
                        (live one_throwing)
          = [ErrorReport ''async_task_processing_error:render failed'']"
    by code_simp
  with lv have lv': "live pg' = [ErrorReport ''async_task_processing_error:render failed'']"
    by simp
  from it have it': "iteration echo_translate (\<lambda>i. None) 1 (0, one_throwing) = Inr (Continue (1, pg'))"
    by simp
  from pr have pr': "progress pg' = Some (1, 1)" by simp
  have one: "\<exists>pg'. iteration echo_translate (\<lambda>i. None) 1 (0, one_throwing) = Inr (Continue (1, pg'))
         \<and> live pg' = [ErrorReport ''async_task_processing_error:render failed'']
         \<and> progress pg' = Some (1, 1)"
    by (intro exI conjI) (rule it', rule lv', rule pr')
  show ?thesis
    by (intro conjI ne st five one)
qed

text \<open>
  The claim as written fails: of two ready tasks the first has a callback that throws
  \<^verbatim>\<open>null\<close>. The \<^verbatim>\<open>catch\<close> clause finds the placeholder, reads the message of what was
  thrown and throws itself; the run ends there, rejected, with the second task queued.
\<close>

theorem drain_thrown_null_counterexample:
  "asyncTaskQueue null_then_ready \<noteq> []
   \<and> all_settle (\<lambda>i. None) (asyncTaskQueue null_then_ready)
   \<and> rejection (processAsyncTasks echo_translate (\<lambda>i. None) null_then_ready)
       = Some (JsError ''Cannot read properties of null (reading 'message')'')"
  by code_simp

section \<open>Properties of the callbacks\<close>

lemma displayWidth_div: "displayWidth n = (n + 2) div 4"
proof -
  have "(of_int n / 4 + 1 / 2 :: rat) = of_int (n + 2) / of_int 4"
    by (simp add: field_simps)
  then have "math_round (of_int n / 4) = \<lfloor>(of_int (n + 2) / of_int 4 :: rat)\<rfloor>"
    unfolding math_round_def by (rule arg_cong)
  also have "\<dots> = (n + 2) div 4"
    by (rule floor_divide_of_int_eq)
  finally show ?thesis by (simp add: displayWidth_def)
qed

lemma displayWidth_nearest: "\<bar>of_int (displayWidth n) - (of_int n / 4 :: rat)\<bar> \<le> 1 / 2"
proof -
  let ?x = "of_int n / 4 + 1 / 2 :: rat"
  have "of_int \<lfloor>?x\<rfloor> \<le> ?x" and "?x < of_int \<lfloor>?x\<rfloor> + 1"
    by linarith+
  then show ?thesis
    unfolding displayWidth_def math_round_def by linarith
qed

lemma set_outerHTML_subset: "set (set_outerHTML ident new doc) \<subseteq> insert new (set doc)"
  by (induction doc) auto

lemma replace_placeholder_subset: "set (replace_placeholder ident new doc) \<subseteq> insert new (set doc)"
  using set_outerHTML_subset [of ident new doc] by (auto simp: replace_placeholder_def)

lemma new_block:
  assumes "b \<in> set (set_outerHTML ident new doc)" and "b \<notin> set doc"
  shows "b = new"
  using assms set_outerHTML_subset [of ident new doc] by auto

lemma new_block_replace:
  assumes "b \<in> set (replace_placeholder ident new doc)" and "b \<notin> set doc"
  shows "b = new"
  using assms replace_placeholder_subset [of ident new doc] by auto

lemma mermaid_image:
  assumes "mermaid_callback r translate d doc = Inr doc'"
    and "Img c b a w \<in> set doc'" and "Img c b a w \<notin> set doc"
  shows "\<exists>p. renderMermaidToPng r (payload_code (data_payload d)) = Inr (Some p)
             \<and> w = displayWidth (png_width p)"
proof (cases "mermaid_try r d doc")
  case (Inl e)
  with assms(1) have "doc' = replace_placeholder (data_id d)
      (error_pre (or_else (translate ''async_mermaid_error'' [escapeHtml (or_else (message e) [])])
         (''Mermaid error: '' @ escapeHtml (or_else (message e) [])))) doc"
    by (simp add: mermaid_callback_def Let_def)
  with assms(2,3) have "Img c b a w = error_pre (or_else (translate ''async_mermaid_error''
      [escapeHtml (or_else (message e) [])]) (''Mermaid error: '' @ escapeHtml (or_else (message e) [])))"
    using new_block_replace by blast
  then show ?thesis by (simp add: error_pre_def)
next
  case (Inr doc1)
  with assms(1) have eq: "doc' = doc1" by (simp add: mermaid_callback_def)
  from Inr obtain pngResult where
    res: "renderMermaidToPng r (payload_code (data_payload d)) = Inr pngResult"
    by (auto simp: mermaid_try_def split: sum.splits)
  show ?thesis
  proof (cases "getElementById (data_id d) doc")
    case False
    with Inr res have "doc1 = doc" by (simp add: mermaid_try_def)
    with eq assms(2,3) show ?thesis by simp
  next
    case True
    with Inr res obtain p where p: "pngResult = Some p"
      and d1: "doc1 = set_outerHTML (data_id d)
           (Img ''mermaid-diagram'' (interpolate (png_base64 p)) ''Mermaid diagram''
              (displayWidth (png_width p))) doc"
      by (cases pngResult) (auto simp: mermaid_try_def)
    from d1 eq assms(2,3) have "Img c b a w = Img ''mermaid-diagram'' (interpolate (png_base64 p))
        ''Mermaid diagram'' (displayWidth (png_width p))"
      using new_block by blast
    with res p show ?thesis by simp
  qed
qed

lemma mermaid_success:
  assumes "renderMermaidToPng r (payload_code (data_payload d)) = Inr (Some p)"
    and "getElementById (data_id d) doc"
  shows "mermaid_callback r translate d doc
           = Inr (set_outerHTML (data_id d)
                    (Img ''mermaid-diagram'' (interpolate (png_base64 p)) ''Mermaid diagram''
                       (displayWidth (png_width p))) doc)"
  using assms by (simp add: mermaid_callback_def mermaid_try_def)

lemma html_success:
  assumes "renderHtmlToPng r (payload_code (data_payload d)) = Inr (Some p)"
    and "\<not> truthy (png_error p)" and "truthy (png_base64 p)"
    and "startsWith (trim (the (png_base64 p))) ''iVBOR''"
    and "getElementById (data_id d) doc"
  shows "html_callback r translate d doc
           = Inr (set_outerHTML (data_id d)
                    (Img ''html-diagram'' (trim (the (png_base64 p))) ''HTML diagram''
                       (displayWidth (png_width p))) doc)"
proof -
  from assms(4) have "trim (the (png_base64 p)) \<noteq> []" by auto
  with assms show ?thesis
    by (simp add: html_callback_def html_try_def Let_def)
qed

lemma html_image:
  assumes "html_callback r translate d doc = Inr doc'"
    and "Img c b a w \<in> set doc'" and "Img c b a w \<notin> set doc"
  shows "\<exists>p. renderHtmlToPng r (payload_code (data_payload d)) = Inr (Some p)
             \<and> w = displayWidth (png_width p)"
proof -
  have "doc' = doc \<or> (\<exists>msg. doc' = set_outerHTML (data_id d) (ErrorReport msg) doc)
        \<or> (\<exists>msg. doc' = replace_placeholder (data_id d) (ErrorReport msg) doc)
        \<or> (\<exists>p s. renderHtmlToPng r (payload_code (data_payload d)) = Inr (Some p)
               \<and> doc' = set_outerHTML (data_id d)
                    (Img ''html-diagram'' s ''HTML diagram'' (displayWidth (png_width p))) doc)"
    using assms(1)
    by (auto simp: html_callback_def html_try_def Let_def html_error_block_def error_pre_def
        split: sum.splits if_splits option.splits)
  then consider "doc' = doc"
    | msg where "doc' = set_outerHTML (data_id d) (ErrorReport msg) doc"
    | msg where "doc' = replace_placeholder (data_id d) (ErrorReport msg) doc"
    | p s where "renderHtmlToPng r (payload_code (data_payload d)) = Inr (Some p)"
        "doc' = set_outerHTML (data_id d)
                    (Img ''html-diagram'' s ''HTML diagram'' (displayWidth (png_width p))) doc"
    by blast
  then show ?thesis
  proof cases
    case 1
    with assms(2,3) show ?thesis by simp
  next
    case 2
    with assms(2,3) have "Img c b a w = ErrorReport msg" using new_block by blast
    then show ?thesis by simp
  next
    case 3
    with assms(2,3) have "Img c b a w = ErrorReport msg" using new_block_replace by blast
    then show ?thesis by simp
  next
    case 4
    with assms(2,3) have "Img c b a w = Img ''html-diagram'' s ''HTML diagram'' (displayWidth (png_width p))"
      using new_block by blast
    with 4(1) show ?thesis by simp
  qed
qed

text \<open>
  The three callbacks that the content script registers catch what the renderer throws
  and report it themselves: they throw nothing.
\<close>

lemma script_callbacks_return:
  "\<exists>doc'. mermaid_callback r translate d doc = Inr doc'"
  "\<exists>doc'. html_callback r translate d doc = Inr doc'"
  "\<exists>doc'. svg_callback r d doc = Inr doc'"
  by (simp_all add: mermaid_callback_def html_callback_def svg_callback_def Let_def
      split: sum.splits)

text \<open>
  C9. Whenever the diagram callback or the HTML-block callback has spliced an image into
  the document, the width of that image is the renderer's width divided by four and
  rounded to the nearest integer; a successful result whose placeholder is still there is
  spliced in exactly so. The rounded value is within one half of the quotient, and it is
  \<open>(width + 2) div 4\<close>.
\<close>

theorem display_width_is_quarter_rounded:
  "(mermaid_callback r translate d doc = Inr doc' \<and> Img c b a w \<in> set doc' \<and> Img c b a w \<notin> set doc
      \<longrightarrow> (\<exists>p. renderMermaidToPng r (payload_code (data_payload d)) = Inr (Some p)
                \<and> w = displayWidth (png_width p)))
   \<and> (html_callback r translate d doc = Inr doc' \<and> Img c b a w \<in> set doc' \<and> Img c b a w \<notin> set doc
      \<longrightarrow> (\<exists>p. renderHtmlToPng r (payload_code (data_payload d)) = Inr (Some p)
                \<and> w = displayWidth (png_width p)))
   \<and> (renderMermaidToPng r (payload_code (data_payload d)) = Inr (Some p)
        \<and> getElementById (data_id d) doc
      \<longrightarrow> mermaid_callback r translate d doc
            = Inr (set_outerHTML (data_id d)
                     (Img ''mermaid-diagram'' (interpolate (png_base64 p)) ''Mermaid diagram''
                        (displayWidth (png_width p))) doc))
   \<and> (renderHtmlToPng r (payload_code (data_payload d)) = Inr (Some p)
        \<and> \<not> truthy (png_error p) \<and> truthy (png_base64 p)
        \<and> startsWith (trim (the (png_base64 p))) ''iVBOR''
        \<and> getElementById (data_id d) doc
      \<longrightarrow> html_callback r translate d doc
            = Inr (set_outerHTML (data_id d)
                     (Img ''html-diagram'' (trim (the (png_base64 p))) ''HTML diagram''
                        (displayWidth (png_width p))) doc))
   \<and> displayWidth n = math_round (of_int n / 4)
   \<and> \<bar>of_int (displayWidth n) - (of_int n / 4 :: rat)\<bar> \<le> 1 / 2
   \<and> displayWidth n = (n + 2) div 4"
proof (intro conjI impI)
  assume "mermaid_callback r translate d doc = Inr doc' \<and> Img c b a w \<in> set doc' \<and> Img c b a w \<notin> set doc"
  then show "\<exists>p. renderMermaidToPng r (payload_code (data_payload d)) = Inr (Some p)
                \<and> w = displayWidth (png_width p)"
    using mermaid_image by blast
next
  assume "html_callback r translate d doc = Inr doc' \<and> Img c b a w \<in> set doc' \<and> Img c b a w \<notin> set doc"
  then show "\<exists>p. renderHtmlToPng r (payload_code (data_payload d)) = Inr (Some p)
                \<and> w = displayWidth (png_width p)"
    using html_image by blast
next
  assume "renderMermaidToPng r (payload_code (data_payload d)) = Inr (Some p)
        \<and> getElementById (data_id d) doc"
  then show "mermaid_callback r translate d doc
            = Inr (set_outerHTML (data_id d)
                     (Img ''mermaid-diagram'' (interpolate (png_base64 p)) ''Mermaid diagram''
                        (displayWidth (png_width p))) doc)"
    using mermaid_success by blast
next
  assume "renderHtmlToPng r (payload_code (data_payload d)) = Inr (Some p)
        \<and> \<not> truthy (png_error p) \<and> truthy (png_base64 p)
        \<and> startsWith (trim (the (png_base64 p))) ''iVBOR''
        \<and> getElementById (data_id d) doc"
  then show "html_callback r translate d doc
            = Inr (set_outerHTML (data_id d)
                     (Img ''html-diagram'' (trim (the (png_base64 p))) ''HTML diagram''
                        (displayWidth (png_width p))) doc)"
    using html_success by blast
next
  show "displayWidth n = math_round (of_int n / 4)" by (simp add: displayWidth_def)
  show "\<bar>of_int (displayWidth n) - (of_int n / 4 :: rat)\<bar> \<le> 1 / 2" by (rule displayWidth_nearest)
  show "displayWidth n = (n + 2) div 4" by (rule displayWidth_div)
qed

text \<open>
  A renderer that answers 1001 pixels: both callbacks splice an image 250 pixels wide in
  place of the placeholder.
\<close>

theorem display_width_is_quarter_rounded_witness:
  "renderMermaidToPng example_renderer (payload_code (data_payload example_data))
     = Inr (Some \<lparr>png_base64 = Some ''iVBORw0KGgo='', png_width = 1001, png_error = None\<rparr>)
   \<and> renderHtmlToPng example_renderer (payload_code (data_payload example_data))
     = Inr (Some \<lparr>png_base64 = Some ''iVBORw0KGgo='', png_width = 1001, png_error = None\<rparr>)
   \<and> getElementById (data_id example_data) [Markup ''<p>text</p>'', Placeholder ''async-placeholder-1'']
   \<and> mermaid_callback example_renderer echo_translate example_data
        [Markup ''<p>text</p>'', Placeholder ''async-placeholder-1'']
       = Inr [Markup ''<p>text</p>'', Img ''mermaid-diagram'' ''iVBORw0KGgo='' ''Mermaid diagram'' 250]
   \<and> html_callback example_renderer echo_translate example_data
        [Markup ''<p>text</p>'', Placeholder ''async-placeholder-1'']
       = Inr [Markup ''<p>text</p>'', Img ''html-diagram'' ''iVBORw0KGgo='' ''HTML diagram'' 250]
   \<and> displayWidth 1001 = 250"
proof -
  let ?p = "\<lparr>png_base64 = Some ''iVBORw0KGgo='', png_width = 1001, png_error = None\<rparr>"
  let ?doc = "[Markup ''<p>text</p>'', Placeholder ''async-placeholder-1'']"
  note inst = display_width_is_quarter_rounded
    [of example_renderer echo_translate example_data ?doc _ _ _ _ _ ?p 1001]
  have m: "renderMermaidToPng example_renderer (payload_code (data_payload example_data)) = Inr (Some ?p)"
    and h: "renderHtmlToPng example_renderer (payload_code (data_payload example_data)) = Inr (Some ?p)"
    by (simp_all add: example_renderer_def Let_def)
  have g: "getElementById (data_id example_data) ?doc"
    by (simp add: getElementById_def example_data_def)
  have e: "\<not> truthy (png_error ?p)" and b: "truthy (png_base64 ?p)" by simp_all
  have t: "trim ''iVBORw0KGgo='' = ''iVBORw0KGgo=''" by (simp add: string_eval)
  then have s: "startsWith (trim (the (png_base64 ?p))) ''iVBOR''" by simp
  have w: "displayWidth 1001 = 250"
    using inst [THEN conjunct2, THEN conjunct2, THEN conjunct2, THEN conjunct2, THEN conjunct2,
        THEN conjunct2] by simp
  have mc: "mermaid_callback example_renderer echo_translate example_data ?doc
       = Inr [Markup ''<p>text</p>'', Img ''mermaid-diagram'' ''iVBORw0KGgo='' ''Mermaid diagram'' 250]"
    using inst [THEN conjunct2, THEN conjunct2, THEN conjunct1, rule_format, OF conjI [OF m g]]
    by (simp add: w example_data_def)
  have hc: "html_callback example_renderer echo_translate example_data ?doc
       = Inr [Markup ''<p>text</p>'', Img ''html-diagram'' ''iVBORw0KGgo='' ''HTML diagram'' 250]"
    using inst [THEN conjunct2, THEN conjunct2, THEN conjunct2, THEN conjunct1, rule_format,
        OF conjI [OF h conjI [OF e conjI [OF b conjI [OF s g]]]]]
    by (simp add: w t example_data_def)
  show ?thesis
    by (intro conjI m h g mc hc w)
qed

section \<open>Properties of the extraction pass\<close>

subsection \<open>Raw HTML nodes\<close>

lemma asyncTask_effect:
  assumes "asyncTask translate cb dat type description st pg = (t, placeholder, pg')"
  shows "asyncTaskQueue pg' = asyncTaskQueue pg @ [t]
         \<and> task_status t = st \<and> task_error t = None \<and> task_type t = type
         \<and> data_payload (task_data t) = dat \<and> data_id (task_data t) = task_id t
         \<and> task_callback t = cb
         \<and> task_id t = ''async-placeholder-'' @ toString10 (asyncTaskIdCounter pg + 1)
         \<and> asyncTaskIdCounter pg' = asyncTaskIdCounter pg + 1
         \<and> live pg' = live pg
         \<and> placeholder = createAsyncPlaceholder translate (task_id t) type description"
  using assms by (auto simp: asyncTask_def generateAsyncId_def Let_def)

lemma blank_iff: "(s = [] \<or> length (filter (\<lambda>c. \<not> is_ws c) s) \<le> 0) \<longleftrightarrow> \<not> list_ex (\<lambda>c. \<not> is_ws c) s"
  by (auto simp: list_ex_iff filter_empty_conv)

lemma html_visitor_converts_iff:
  "html_visitor pf translate r val pg \<noteq> None \<longleftrightarrow>
     trim val \<noteq> [] \<and> \<not> test_whole br_only (trim val)
     \<and> list_ex (\<lambda>c. \<not> is_ws c)
          (sanitizeRenderedHtml (url_protocol pf) (dom_outerHTML pf) (dom_parseHTML pf) (dom_innerHTML pf) (trim val))"
proof -
  let ?s = "sanitizeRenderedHtml (url_protocol pf) (dom_outerHTML pf) (dom_parseHTML pf) (dom_innerHTML pf) (trim val)"
  obtain t ph pg1 where a: "asyncTask translate (html_callback r translate) (Code ?s) ''html'' [] Ready pg
      = (t, ph, pg1)"
    by (cases "asyncTask translate (html_callback r translate) (Code ?s) ''html'' [] Ready pg") auto
  have "html_visitor pf translate r val pg
      = (if trim val = [] then None
         else if test_whole br_only (trim val) then None
         else if ?s = [] \<or> length (filter (\<lambda>c. \<not> is_ws c) ?s) \<le> 0 then None
         else Some (ph, pg1))"
    by (simp add: html_visitor_def Let_def a)
  then show ?thesis
    unfolding blank_iff by simp
qed

lemma html_visitor_Some:
  assumes "html_visitor pf translate r val pg = Some (placeholder, pg')"
  shows "\<exists>t. asyncTaskQueue pg' = asyncTaskQueue pg @ [t]
           \<and> task_status t = Ready \<and> task_type t = ''html''
           \<and> data_payload (task_data t)
               = Code (sanitizeRenderedHtml (url_protocol pf) (dom_outerHTML pf) (dom_parseHTML pf)
                         (dom_innerHTML pf) (trim val))
           \<and> placeholder = createAsyncPlaceholder translate (task_id t) ''html'' []"
proof -
  let ?s = "sanitizeRenderedHtml (url_protocol pf) (dom_outerHTML pf) (dom_parseHTML pf) (dom_innerHTML pf) (trim val)"
  obtain t ph pg1 where a: "asyncTask translate (html_callback r translate) (Code ?s) ''html'' [] Ready pg
      = (t, ph, pg1)"
    by (cases "asyncTask translate (html_callback r translate) (Code ?s) ''html'' [] Ready pg") auto
  have "html_visitor pf translate r val pg
      = (if trim val = [] then None
         else if test_whole br_only (trim val) then None
         else if ?s = [] \<or> length (filter (\<lambda>c. \<not> is_ws c) ?s) \<le> 0 then None
         else Some (ph, pg1))"
    by (simp add: html_visitor_def Let_def a)
  with assms have "placeholder = ph" "pg' = pg1"
    by (simp_all split: if_splits)
  with asyncTask_effect [OF a] show ?thesis by auto
qed

text \<open>
  C5, as the code has it. The current content script converts a raw HTML node exactly
  when its trimmed content is not empty, is not made of \<^verbatim>\<open>br\<close> tags with white space
  or \<^verbatim>\<open>&nbsp;\<close> only, and its sanitized form has a character that is not white space;
  there is no condition on the root tag or the length. A node that is not converted is left
  as it is and the queue and the id counter are untouched; a converted node becomes the
  placeholder of a new \<^verbatim>\<open>ready\<close> task whose code is the sanitized markup.
\<close>

theorem html_node_conversion:
  "(html_visitor pf translate r val pg \<noteq> None \<longleftrightarrow>
      trim val \<noteq> [] \<and> \<not> test_whole br_only (trim val)
      \<and> list_ex (\<lambda>c. \<not> is_ws c)
           (sanitizeRenderedHtml (url_protocol pf) (dom_outerHTML pf) (dom_parseHTML pf) (dom_innerHTML pf) (trim val)))
   \<and> (html_visitor pf translate r val pg = None
        \<longrightarrow> remarkHtmlToPng pf translate r (HtmlNode val) pg = (HtmlNode val, pg))
   \<and> (html_visitor pf translate r val pg = Some (placeholder, pg')
        \<longrightarrow> remarkHtmlToPng pf translate r (HtmlNode val) pg = (HtmlNode placeholder, pg')
            \<and> (\<exists>t. asyncTaskQueue pg' = asyncTaskQueue pg @ [t]
                  \<and> task_status t = Ready
                  \<and> data_payload (task_data t)
                      = Code (sanitizeRenderedHtml (url_protocol pf) (dom_outerHTML pf) (dom_parseHTML pf)
                                (dom_innerHTML pf) (trim val))
                  \<and> placeholder = createAsyncPlaceholder translate (task_id t) ''html'' []))"
proof (intro conjI impI)
  show "html_visitor pf translate r val pg \<noteq> None \<longleftrightarrow>
      trim val \<noteq> [] \<and> \<not> test_whole br_only (trim val)
      \<and> list_ex (\<lambda>c. \<not> is_ws c)
           (sanitizeRenderedHtml (url_protocol pf) (dom_outerHTML pf) (dom_parseHTML pf) (dom_innerHTML pf) (trim val))"
    by (rule html_visitor_converts_iff)
next
  assume "html_visitor pf translate r val pg = None"
  then show "remarkHtmlToPng pf translate r (HtmlNode val) pg = (HtmlNode val, pg)" by simp
next
  assume "html_visitor pf translate r val pg = Some (placeholder, pg')"
  then show "remarkHtmlToPng pf translate r (HtmlNode val) pg = (HtmlNode placeholder, pg')" by simp
next
  assume "html_visitor pf translate r val pg = Some (placeholder, pg')"
  from html_visitor_Some [OF this]
  show "\<exists>t. asyncTaskQueue pg' = asyncTaskQueue pg @ [t]
                  \<and> task_status t = Ready
                  \<and> data_payload (task_data t)
                      = Code (sanitizeRenderedHtml (url_protocol pf) (dom_outerHTML pf) (dom_parseHTML pf)
                                (dom_innerHTML pf) (trim val))
                  \<and> placeholder = createAsyncPlaceholder translate (task_id t) ''html'' []"
    by blast
qed

text \<open>
  A line break alone is left untouched; a short paragraph is converted, into a
  \<^verbatim>\<open>ready\<close> task that carries its sanitized markup.
\<close>

theorem html_node_conversion_witness:
  "html_visitor example_platform echo_translate example_renderer ''<br>'' empty_page = None
   \<and> remarkHtmlToPng example_platform echo_translate example_renderer (HtmlNode ''<br>'') empty_page
       = (HtmlNode ''<br>'', empty_page)
   \<and> (\<exists>placeholder pg' t.
         html_visitor example_platform echo_translate example_renderer ''<p>Hello</p>'' empty_page
           = Some (placeholder, pg')
         \<and> remarkHtmlToPng example_platform echo_translate example_renderer
               (HtmlNode ''<p>Hello</p>'') empty_page = (HtmlNode placeholder, pg')
         \<and> asyncTaskQueue pg' = [t] \<and> task_status t = Ready
         \<and> data_payload (task_data t) = Code ''<p>Hello</p>'')"
proof -
  let ?visit = "html_visitor example_platform echo_translate example_renderer"
  let ?plugin = "remarkHtmlToPng example_platform echo_translate example_renderer"
  have br: "test_whole br_only (trim ''<br>'')" by code_simp
  have none: "?visit ''<br>'' empty_page = None"
  proof (rule ccontr)
    assume "?visit ''<br>'' empty_page \<noteq> None"
    with html_node_conversion [of example_platform echo_translate example_renderer "''<br>''" empty_page,
        THEN conjunct1] br
    show False by blast
  qed
  from html_node_conversion [of example_platform echo_translate example_renderer "''<br>''" empty_page,
      THEN conjunct2, THEN conjunct1, rule_format, OF none]
  have kept: "?plugin (HtmlNode ''<br>'') empty_page = (HtmlNode ''<br>'', empty_page)" .
  have c1: "trim ''<p>Hello</p>'' \<noteq> []" by code_simp
  have c2: "\<not> test_whole br_only (trim ''<p>Hello</p>'')" by code_simp
  have c3: "list_ex (\<lambda>c. \<not> is_ws c)
          (sanitizeRenderedHtml (url_protocol example_platform) (dom_outerHTML example_platform)
             (dom_parseHTML example_platform) (dom_innerHTML example_platform) (trim ''<p>Hello</p>''))"
    by code_simp
  have s: "sanitizeRenderedHtml (url_protocol example_platform) (dom_outerHTML example_platform)
             (dom_parseHTML example_platform) (dom_innerHTML example_platform) (trim ''<p>Hello</p>'')
           = ''<p>Hello</p>''"
    by code_simp
  have q: "asyncTaskQueue empty_page = []"
    by (simp add: empty_page_def example_page_def)
  from html_node_conversion [of example_platform echo_translate example_renderer "''<p>Hello</p>''"
      empty_page, THEN conjunct1] c1 c2 c3
  obtain placeholder pg' where
    some: "?visit ''<p>Hello</p>'' empty_page = Some (placeholder, pg')"
    by (cases "?visit ''<p>Hello</p>'' empty_page") auto
  from html_node_conversion [of example_platform echo_translate example_renderer "''<p>Hello</p>''"
      empty_page placeholder pg', THEN conjunct2, THEN conjunct2, rule_format, OF some]
  obtain t where
    rep: "?plugin (HtmlNode ''<p>Hello</p>'') empty_page = (HtmlNode placeholder, pg')"
    and t: "asyncTaskQueue pg' = [t]" "task_status t = Ready"
      "data_payload (task_data t) = Code ''<p>Hello</p>''"
    unfolding s q by auto
  have "\<exists>placeholder pg' t.
         ?visit ''<p>Hello</p>'' empty_page = Some (placeholder, pg')
         \<and> ?plugin (HtmlNode ''<p>Hello</p>'') empty_page = (HtmlNode placeholder, pg')
         \<and> asyncTaskQueue pg' = [t] \<and> task_status t = Ready
         \<and> data_payload (task_data t) = Code ''<p>Hello</p>''"
    by (intro exI conjI) (rule some, rule rep, rule t(1), rule t(2), rule t(3))
  with none kept show ?thesis by (intro conjI)
qed

text \<open>
  The claim as written fails: this node neither starts with one of the three root tags
  nor is longer than 100 characters, and it is converted.
\<close>

theorem html_node_short_paragraph_counterexample:
  "map_option fst
     (html_visitor example_platform echo_translate example_renderer ''<p>Hello</p>'' empty_page)
     = Some (createAsyncPlaceholder echo_translate ''async-placeholder-1'' ''html'' [])
   \<and> \<not> startsWith (trim ''<p>Hello</p>'') ''<div''
   \<and> \<not> startsWith (trim ''<p>Hello</p>'') ''<table''
   \<and> \<not> startsWith (trim ''<p>Hello</p>'') ''<svg''
   \<and> \<not> length (trim ''<p>Hello</p>'') > 100"
  by code_simp

subsection \<open>SVG image references\<close>

lemma svg_replace_effect:
  assumes "svg_replace pf translate r m (html, pg) = Inr (html', pg')"
  shows "\<exists>t content. initialSvgContent pf (src m) = Inr content
           \<and> asyncTaskQueue pg' = asyncTaskQueue pg @ [t]
           \<and> task_status t = initialStatus (src m)
           \<and> data_payload (task_data t) = Svg (src m) (fullMatch m) content
           \<and> html' = take (index m) html
                     @ createAsyncPlaceholder translate (task_id t) ''svg''
                         (last (split_on (CHR ''/'') (src m)))
                     @ drop (index m + length (fullMatch m)) html"
proof -
  from assms obtain content where c: "initialSvgContent pf (src m) = Inr content"
    by (cases "initialSvgContent pf (src m)") (auto simp: svg_replace_def Let_def)
  let ?file = "last (split_on (CHR ''/'') (src m))"
  obtain t ph pg1 where a: "asyncTask translate (svg_callback r) (Svg (src m) (fullMatch m) content)
      ''svg'' ?file (initialStatus (src m)) pg = (t, ph, pg1)"
    by (cases "asyncTask translate (svg_callback r) (Svg (src m) (fullMatch m) content)
      ''svg'' ?file (initialStatus (src m)) pg") auto
  from assms c a have h: "html' = take (index m) html @ ph @ drop (index m + length (fullMatch m)) html"
    and p: "pg' = pg1"
    by (cases "start_fetch pf (src m)"; simp add: svg_replace_def Let_def)+
  from asyncTask_effect [OF a] c h p show ?thesis by auto
qed

text \<open>What \<^verbatim>\<open>processSvgImages\<close> has registered for a match.\<close>

definition created_for :: "platform \<Rightarrow> svg_match \<Rightarrow> task \<Rightarrow> bool" where
  "created_for pf m t =
     (task_status t = initialStatus (src m)
      \<and> (\<exists>content. initialSvgContent pf (src m) = Inr content
            \<and> data_payload (task_data t) = Svg (src m) (fullMatch m) content))"

lemma svg_loop_tasks:
  assumes "svg_loop pf translate r ms (html, pg) = Inr (out, pg')"
  shows "\<exists>new. asyncTaskQueue pg' = asyncTaskQueue pg @ new \<and> list_all2 (created_for pf) ms new"
  using assms
proof (induction ms arbitrary: html pg)
  case Nil
  then show ?case by simp
next
  case (Cons m ms)
  from Cons.prems obtain html1 pg1 where
    step: "svg_replace pf translate r m (html, pg) = Inr (html1, pg1)"
    and rest: "svg_loop pf translate r ms (html1, pg1) = Inr (out, pg')"
    by (cases "svg_replace pf translate r m (html, pg)") auto
  from svg_replace_effect [OF step] obtain t where
    t: "asyncTaskQueue pg1 = asyncTaskQueue pg @ [t]" "created_for pf m t"
    by (auto simp: created_for_def)
  from Cons.IH [OF rest] obtain new where
    "asyncTaskQueue pg' = asyncTaskQueue pg1 @ new" "list_all2 (created_for pf) ms new"
    by blast
  with t have "asyncTaskQueue pg' = asyncTaskQueue pg @ (t # new)
               \<and> list_all2 (created_for pf) (m # ms) (t # new)" by simp
  then show ?case by blast
qed

lemma initialSvgContent_unrecognized:
  assumes "initialSvgContent pf s = Inr content" and "base64Match s = None" and "urlMatch s = None"
  shows "content = None"
  using assms by (auto simp: initialSvgContent_def split: if_splits)

lemma svg_callback_no_content:
  assumes "\<not> truthy (payload_svgContent (data_payload d))"
  shows \<open>svg_callback r d doc
           = Inr (replace_placeholder (data_id d)
                    (ErrorReport (''SVG Error: Cannot load file "'' @ escapeHtml (payload_src (data_payload d))
                                  @ ''" - No SVG content available''))
                    doc)\<close>
  using assms by (simp add: svg_callback_def svg_try_def error_pre_def escapeHtml_def replace_all_def)

text \<open>
  C6, as the code has it. Every task that the scan registers starts as \<^verbatim>\<open>ready\<close> when
  the source begins with \<^verbatim>\<open>data:\<close> and as \<^verbatim>\<open>fetching\<close> otherwise; none starts as
  \<^verbatim>\<open>error\<close>. A \<^verbatim>\<open>data:\<close> URI in neither recognized encoding is registered all the
  same, \<^verbatim>\<open>ready\<close> and without content; the failure shows when its callback runs, which
  finds no content and splices the error report in.
\<close>

theorem svg_initial_status:
  \<open>(processSvgImages pf translate r html pg = Inr (out, pg') \<longrightarrow>
      (\<exists>new. asyncTaskQueue pg' = asyncTaskQueue pg @ new
         \<and> list_all2 (\<lambda>m t. payload_src (data_payload (task_data t)) = src m
                      \<and> task_status t = (if startsWith (src m) ''data:'' then Ready else Fetching)
                      \<and> task_status t \<noteq> Error
                      \<and> (base64Match (src m) = None \<and> urlMatch (src m) = None
                           \<longrightarrow> payload_svgContent (data_payload (task_data t)) = None))
              (rev (collect html 0)) new))
   \<and> (\<not> truthy (payload_svgContent (data_payload d)) \<longrightarrow>
        svg_callback r d doc
          = Inr (replace_placeholder (data_id d)
                   (ErrorReport (''SVG Error: Cannot load file "'' @ escapeHtml (payload_src (data_payload d))
                                 @ ''" - No SVG content available''))
                   doc))\<close>
proof (intro conjI impI)
  assume run: "processSvgImages pf translate r html pg = Inr (out, pg')"
  let ?ok = "\<lambda>m t. payload_src (data_payload (task_data t)) = src m
                      \<and> task_status t = (if startsWith (src m) ''data:'' then Ready else Fetching)
                      \<and> task_status t \<noteq> Error
                      \<and> (base64Match (src m) = None \<and> urlMatch (src m) = None
                           \<longrightarrow> payload_svgContent (data_payload (task_data t)) = None)"
  have weaken: "?ok m t" if "created_for pf m t" for m t
    using that initialSvgContent_unrecognized [of pf "src m"]
    by (auto simp: created_for_def initialStatus_def)
  show "\<exists>new. asyncTaskQueue pg' = asyncTaskQueue pg @ new \<and> list_all2 ?ok (rev (collect html 0)) new"
  proof (cases "collect html 0 = []")
    case True
    with run have "pg' = pg" by (simp add: processSvgImages_def)
    with True show ?thesis by simp
  next
    case False
    with run have "svg_loop pf translate r (rev (collect html 0)) (html, pg) = Inr (out, pg')"
      by (simp add: processSvgImages_def Let_def)
    from svg_loop_tasks [OF this] obtain new where
      n: "asyncTaskQueue pg' = asyncTaskQueue pg @ new"
      "list_all2 (created_for pf) (rev (collect html 0)) new"
      by blast
    from n(2) have "list_all2 ?ok (rev (collect html 0)) new"
      by (rule list_all2_mono) (rule weaken)
    with n(1) show ?thesis by blast
  qed
next
  assume "\<not> truthy (payload_svgContent (data_payload d))"
  then show \<open>svg_callback r d doc
          = Inr (replace_placeholder (data_id d)
                   (ErrorReport (''SVG Error: Cannot load file "'' @ escapeHtml (payload_src (data_payload d))
                                 @ ''" - No SVG content available''))
                   doc)\<close>
    by (rule svg_callback_no_content)
qed

text \<open>
  The remote image is registered as \<^verbatim>\<open>fetching\<close> and the unrecognized \<^verbatim>\<open>data:\<close> URI as
  \<^verbatim>\<open>ready\<close> without content (the last match is registered first); the callback of a
  task without content reports the error.
\<close>

theorem svg_initial_status_witness:
  \<open>(\<exists>out pg'. processSvgImages example_platform echo_translate example_renderer two_svg_images empty_page
                 = Inr (out, pg')
        \<and> map task_status (asyncTaskQueue pg') = [Ready, Fetching]
        \<and> payload_svgContent (data_payload (task_data (hd (asyncTaskQueue pg')))) = None)
   \<and> \<not> truthy (payload_svgContent (data_payload no_content_data))
   \<and> svg_callback example_renderer no_content_data [Placeholder ''async-placeholder-1'']
       = Inr [ErrorReport ''SVG Error: Cannot load file "data:text/plain,q.svg" - No SVG content available'']\<close>
proof -
  let ?run = "processSvgImages example_platform echo_translate example_renderer two_svg_images empty_page"
  have "\<not> isl ?run" by code_simp
  then obtain out pg' where run: "?run = Inr (out, pg')"
    by (cases ?run) auto
  have ms: \<open>rev (collect two_svg_images 0)
      = [\<lparr>fullMatch = ''<img src="data:text/plain,q.svg">'', src = ''data:text/plain,q.svg'', index = 57\<rparr>,
         \<lparr>fullMatch = ''<img alt="a" src="https://example.com/a.svg">'',
          src = ''https://example.com/a.svg'', index = 7\<rparr>]\<close>
    by code_simp
  have q: "asyncTaskQueue empty_page = []"
    by (simp add: empty_page_def example_page_def)
  have b: "base64Match ''data:text/plain,q.svg'' = None" and u: "urlMatch ''data:text/plain,q.svg'' = None"
    by code_simp+
  from svg_initial_status [of example_platform echo_translate example_renderer two_svg_images empty_page
      out pg', THEN conjunct1, rule_format, OF run]
  obtain t1 t2 where new: "asyncTaskQueue pg' = [t1, t2]"
    and t1: "task_status t1 = Ready" "payload_svgContent (data_payload (task_data t1)) = None"
    and t2: "task_status t2 = Fetching"
    unfolding ms q by (auto simp: list_all2_Cons1 b u)
  have first: "\<exists>out pg'. ?run = Inr (out, pg')
        \<and> map task_status (asyncTaskQueue pg') = [Ready, Fetching]
        \<and> payload_svgContent (data_payload (task_data (hd (asyncTaskQueue pg')))) = None"
    using run new t1 t2 by (intro exI [of _ out] exI [of _ pg']) simp
  have nc: "\<not> truthy (payload_svgContent (data_payload no_content_data))"
    by (simp add: no_content_data_def)
  from svg_initial_status [where r = example_renderer and d = no_content_data
      and doc = "[Placeholder ''async-placeholder-1'']", THEN conjunct2, rule_format, OF nc]
  have cb: \<open>svg_callback example_renderer no_content_data [Placeholder ''async-placeholder-1'']
       = Inr [ErrorReport ''SVG Error: Cannot load file "data:text/plain,q.svg" - No SVG content available'']\<close>
    by (simp add: no_content_data_def replace_placeholder_def getElementById_def escapeHtml_def
        replace_all_def)
  from first nc cb show ?thesis by (intro conjI)
qed

text \<open>
  The claim as written fails: the task for a \<^verbatim>\<open>data:\<close> URI of an unrecognized format
  starts as \<^verbatim>\<open>ready\<close>, not as \<^verbatim>\<open>error\<close>.
\<close>

theorem svg_unrecognized_data_uri_counterexample:
  "(case processSvgImages example_platform echo_translate example_renderer unrecognized_data_image
           empty_page of
      Inl e \<Rightarrow> []
    | Inr (out, pg') \<Rightarrow>
        map (\<lambda>t. (task_status t, payload_svgContent (data_payload (task_data t)))) (asyncTaskQueue pg'))
   = [(Ready, None)]"
  by code_simp

subsection \<open>The substitution leaves the rest of the markup alone\<close>

lemma joined_simps [simp]:
  "joined [] = []"
  "joined (seg # segs) = fst seg @ snd seg @ joined segs"
  "joined (segs @ segs') = joined segs @ joined segs'"
  by (simp_all add: joined_def split_def)

lemma offsets_append:
  "offsets base (segs @ [seg]) = offsets base segs @ [base + length (joined segs) + length (fst seg)]"
  by (induction segs arbitrary: base) (simp_all add: add.assoc)

lemma length_offsets [simp]: "length (offsets base segs) = length segs"
  by (induction segs arbitrary: base) simp_all

lemma substituted_simps [simp]:
  "substituted translate [] [] = []"
  "length segs = length places \<Longrightarrow>
     substituted translate (segs @ [seg]) (places @ [place])
       = substituted translate segs places
         @ fst seg @ createAsyncPlaceholder translate (fst place) ''svg'' (snd place)"
  by (simp_all add: substituted_def split_def)

lemma collect_Nil: "exec imgRegex html i = None \<Longrightarrow> collect html i = []"
  by (subst collect.simps) simp

lemma collect_Cons:
  "exec imgRegex html i = Some (j, full, cap) \<Longrightarrow>
     collect html i = \<lparr>fullMatch = full, src = cap, index = j\<rparr> # collect html (j + length full)"
  by (subst collect.simps) simp

lemma collect_segments:
  "i \<le> length html \<Longrightarrow>
     \<exists>segs tail. drop i html = joined segs @ tail
       \<and> map fullMatch (collect html i) = map snd segs
       \<and> map index (collect html i) = offsets i segs"
proof (induction html i rule: collect.induct)
  case (1 html i)
  show ?case
  proof (cases "exec imgRegex html i")
    case None
    then have "collect html i = []" by (rule collect_Nil)
    then have "drop i html = joined [] @ drop i html
       \<and> map fullMatch (collect html i) = map snd ([] :: (string \<times> string) list)
       \<and> map index (collect html i) = offsets i []"
      by simp
    then show ?thesis by blast
  next
    case (Some found)
    obtain j full cap where found: "found = (j, full, cap)" by (cases found)
    with Some have ex: "exec imgRegex html i = Some (j, full, cap)" by simp
    from exec_imgRegex_advances [OF ex] have ij: "i \<le> j" and ne: "full \<noteq> []"
      and bound: "j + length full \<le> length html"
      and at: "take (length full) (drop j html) = full"
      by auto
    from "1.IH" [OF Some found [symmetric] refl bound] obtain segs tail where
      rest: "drop (j + length full) html = joined segs @ tail"
      and tags: "map fullMatch (collect html (j + length full)) = map snd segs"
      and pos: "map index (collect html (j + length full)) = offsets (j + length full) segs"
      by blast
    let ?gap = "take (j - i) (drop i html)"
    have len_gap: "length ?gap = j - i" using bound ij by simp
    have "drop i html = ?gap @ drop (j - i) (drop i html)"
      by (rule append_take_drop_id [symmetric])
    also have "drop (j - i) (drop i html) = drop j html" using ij by simp
    also have "drop j html = take (length full) (drop j html) @ drop (length full) (drop j html)"
      by (rule append_take_drop_id [symmetric])
    also have "\<dots> = full @ drop (j + length full) html"
      by (simp add: at add.commute)
    finally have whole: "drop i html = joined ((?gap, full) # segs) @ tail"
      by (simp add: rest)
    have "map fullMatch (collect html i) = map snd ((?gap, full) # segs)"
      by (simp add: collect_Cons [OF ex] tags)
    moreover have "min (length html - i) (j - i) = j - i"
      using bound by simp
    then have "map index (collect html i) = offsets i ((?gap, full) # segs)"
      using ij by (simp add: collect_Cons [OF ex] pos)
    ultimately show ?thesis using whole by blast
  qed
qed

lemma svg_loop_splices:
  assumes "map fullMatch ms = map snd segs"
    and "map index ms = offsets (length lead) segs"
    and "svg_loop pf translate r (rev ms) (lead @ joined segs @ tail, pg) = Inr (out, pg')"
  shows "\<exists>places. length places = length segs
           \<and> out = lead @ substituted translate segs places @ tail"
  using assms
proof (induction segs arbitrary: ms tail pg rule: rev_induct)
  case Nil
  then have "ms = []" by simp
  with Nil.prems(3) have "out = lead @ tail" by simp
  then have "length ([] :: (string \<times> string) list) = length ([] :: (string \<times> string) list)
      \<and> out = lead @ substituted translate [] [] @ tail" by simp
  then show ?case by blast
next
  case (snoc seg segs)
  from snoc.prems(1) have "length ms = Suc (length segs)"
    by (metis length_append_singleton length_map)
  then obtain ms0 m where ms: "ms = ms0 @ [m]"
    by (cases ms rule: rev_cases) auto
  from snoc.prems(1) ms have tags0: "map fullMatch ms0 = map snd segs" and tag: "fullMatch m = snd seg"
    by simp_all
  from snoc.prems(2) ms have pos0: "map index ms0 = offsets (length lead) segs"
    and pos: "index m = length lead + length (joined segs) + length (fst seg)"
    by (simp_all add: offsets_append)
  let ?html = "lead @ joined (segs @ [seg]) @ tail"
  from snoc.prems(3) ms obtain html1 pg1 where
    step: "svg_replace pf translate r m (?html, pg) = Inr (html1, pg1)"
    and rest: "svg_loop pf translate r (rev ms0) (html1, pg1) = Inr (out, pg')"
    by (cases "svg_replace pf translate r m (?html, pg)") auto
  from svg_replace_effect [OF step] obtain t :: task where
    h1: "html1 = take (index m) ?html
                 @ createAsyncPlaceholder translate (task_id t) ''svg''
                     (last (split_on (CHR ''/'') (src m)))
                 @ drop (index m + length (fullMatch m)) ?html"
    by blast
  let ?ph = "createAsyncPlaceholder translate (task_id t) ''svg'' (last (split_on (CHR ''/'') (src m)))"
  have html: "?html = (lead @ joined segs @ fst seg) @ snd seg @ tail" by simp
  have idx: "index m = length (lead @ joined segs @ fst seg)" by (simp add: pos)
  have t1: "take (index m) ?html = lead @ joined segs @ fst seg"
    unfolding html idx by simp
  have d1: "drop (index m + length (fullMatch m)) ?html = tail"
    unfolding html idx tag by simp
  from h1 t1 d1 have "html1 = lead @ joined segs @ (fst seg @ ?ph @ tail)" by simp
  with rest have "svg_loop pf translate r (rev ms0) (lead @ joined segs @ (fst seg @ ?ph @ tail), pg1)
      = Inr (out, pg')" by simp
  from snoc.IH [OF tags0 pos0 this] obtain places where
    len: "length places = length segs"
    and out: "out = lead @ substituted translate segs places @ fst seg @ ?ph @ tail"
    by blast
  let ?place = "(task_id t, last (split_on (CHR ''/'') (src m)))"
  have "length (places @ [?place]) = length (segs @ [seg])
        \<and> out = lead @ substituted translate (segs @ [seg]) (places @ [?place]) @ tail"
    using len out by simp
  then show ?case by blast
qed

lemma svg_placeholder_is_span:
  \<open>startsWith (createAsyncPlaceholder translate ident ''svg'' description)
      (''<span id="'' @ ident @ ''" class="async-placeholder svg-placeholder inline-placeholder">'')
   \<and> suffix ''</span>'' (createAsyncPlaceholder translate ident ''svg'' description)\<close>
  by (simp add: createAsyncPlaceholder_def suffix_def)

text \<open>
  The function returns unless a decoder of the platform throws on the content of a
  \<^verbatim>\<open>data:\<close> source or the URL constructor throws on a local path.
\<close>

lemma svg_replace_returns:
  "\<not> isl (initialSvgContent pf (src m)) \<Longrightarrow> \<not> isl (start_fetch pf (src m)) \<Longrightarrow>
     \<not> isl (svg_replace pf translate r m s)"
  by (cases "initialSvgContent pf (src m)"; cases "start_fetch pf (src m)")
     (simp_all add: svg_replace_def Let_def split: prod.splits)

lemma svg_loop_returns:
  "\<forall>m \<in> set ms. \<not> isl (initialSvgContent pf (src m)) \<and> \<not> isl (start_fetch pf (src m)) \<Longrightarrow>
     \<not> isl (svg_loop pf translate r ms s)"
proof (induction ms arbitrary: s)
  case Nil
  then show ?case by simp
next
  case (Cons m ms)
  then have "\<not> isl (svg_replace pf translate r m s)"
    by (simp add: svg_replace_returns)
  then obtain s' where "svg_replace pf translate r m s = Inr s'"
    by (cases "svg_replace pf translate r m s") auto
  with Cons show ?case by simp
qed

lemma processSvgImages_returns:
  "list_all (\<lambda>m. \<not> isl (initialSvgContent pf (src m)) \<and> \<not> isl (start_fetch pf (src m)))
       (collect html 0) \<Longrightarrow>
     \<not> isl (processSvgImages pf translate r html pg)"
  by (simp add: processSvgImages_def Let_def list_all_iff svg_loop_returns)

text \<open>
  The frame of \<^verbatim>\<open>processSvgImages\<close>. When it returns, the input is the matched tags with the text
  between them, and the output is the same text, in the same order, with one placeholder
  span in the place of each tag: nothing outside the matched tags has changed. The tags
  are those the pattern finds from left to right. It does return when the platform
  decodes every matched \<^verbatim>\<open>data:\<close> source and resolves every matched local path.
\<close>

lemma processSvgImages_frame:
  \<open>(list_all (\<lambda>m. \<not> isl (initialSvgContent pf (src m)) \<and> \<not> isl (start_fetch pf (src m)))
       (collect html 0) \<longrightarrow>
      \<not> isl (processSvgImages pf translate r html pg))
   \<and> (processSvgImages pf translate r html pg = Inr (out, pg') \<longrightarrow>
      (\<exists>segs places tail.
          html = joined segs @ tail
          \<and> map snd segs = map fullMatch (collect html 0)
          \<and> length places = length segs
          \<and> out = substituted translate segs places @ tail))
   \<and> startsWith (createAsyncPlaceholder translate ident ''svg'' description)
        (''<span id="'' @ ident @ ''" class="async-placeholder svg-placeholder inline-placeholder">'')
   \<and> suffix ''</span>'' (createAsyncPlaceholder translate ident ''svg'' description)\<close>
proof (intro conjI impI)
  assume "list_all (\<lambda>m. \<not> isl (initialSvgContent pf (src m)) \<and> \<not> isl (start_fetch pf (src m)))
       (collect html 0)"
  then show "\<not> isl (processSvgImages pf translate r html pg)"
    by (rule processSvgImages_returns)
next
  assume run: "processSvgImages pf translate r html pg = Inr (out, pg')"
  from collect_segments [of 0 html] obtain segs tail where
    whole: "html = joined segs @ tail"
    and tags: "map fullMatch (collect html 0) = map snd segs"
    and pos: "map index (collect html 0) = offsets 0 segs"
    by auto
  show "\<exists>segs places tail.
          html = joined segs @ tail
          \<and> map snd segs = map fullMatch (collect html 0)
          \<and> length places = length segs
          \<and> out = substituted translate segs places @ tail"
  proof (cases "collect html 0 = []")
    case True
    with run have "out = html" by (simp add: processSvgImages_def)
    moreover from True tags have "segs = []" by simp
    ultimately have "html = joined [] @ html
          \<and> map snd ([] :: (string \<times> string) list) = map fullMatch (collect html 0)
          \<and> length ([] :: (string \<times> string) list) = length ([] :: (string \<times> string) list)
          \<and> out = substituted translate [] [] @ html"
      using True by simp
    then show ?thesis by blast
  next
    case False
    with run have "svg_loop pf translate r (rev (collect html 0)) (html, pg) = Inr (out, pg')"
      by (simp add: processSvgImages_def Let_def)
    then have "svg_loop pf translate r (rev (collect html 0)) ([] @ joined segs @ tail, pg)
        = Inr (out, pg')"
      using whole by simp
    from svg_loop_splices [OF tags _ this] pos obtain places where
      "length places = length segs" "out = substituted translate segs places @ tail"
      by auto
    with whole tags show ?thesis by metis
  qed
next
  show \<open>startsWith (createAsyncPlaceholder translate ident ''svg'' description)
        (''<span id="'' @ ident @ ''" class="async-placeholder svg-placeholder inline-placeholder">'')\<close>
    using svg_placeholder_is_span by blast
  show \<open>suffix ''</span>'' (createAsyncPlaceholder translate ident ''svg'' description)\<close>
    using svg_placeholder_is_span by blast
qed

text \<open>
  Markup with two SVG references: the text around them stays and each tag gives way to its
  placeholder; the later tag was registered first and has the lower id.
\<close>

lemma processSvgImages_frame_example:
  \<open>(case processSvgImages example_platform echo_translate example_renderer two_svg_images empty_page of
      Inl e \<Rightarrow> []
    | Inr (out, pg') \<Rightarrow> out)
     = ''<p>See '' @ createAsyncPlaceholder echo_translate ''async-placeholder-2'' ''svg'' ''a.svg''
       @ '' and '' @ createAsyncPlaceholder echo_translate ''async-placeholder-1'' ''svg'' ''plain,q.svg''
       @ ''.</p>''
   \<and> (\<exists>segs places tail.
         two_svg_images = joined segs @ tail
         \<and> map snd segs = [''<img alt="a" src="https://example.com/a.svg">'',
                            ''<img src="data:text/plain,q.svg">'']
         \<and> length places = length segs
         \<and> ''<p>See '' @ createAsyncPlaceholder echo_translate ''async-placeholder-2'' ''svg'' ''a.svg''
             @ '' and '' @ createAsyncPlaceholder echo_translate ''async-placeholder-1'' ''svg'' ''plain,q.svg''
             @ ''.</p>''
           = substituted echo_translate segs places @ tail)\<close>
proof -
  let ?run = "processSvgImages example_platform echo_translate example_renderer two_svg_images empty_page"
  let ?out = "''<p>See '' @ createAsyncPlaceholder echo_translate ''async-placeholder-2'' ''svg'' ''a.svg''
       @ '' and '' @ createAsyncPlaceholder echo_translate ''async-placeholder-1'' ''svg'' ''plain,q.svg''
       @ ''.</p>''"
  have ev: "(case ?run of Inl e \<Rightarrow> [] | Inr (out, pg') \<Rightarrow> out) = ?out"
    by code_simp
  have "list_all (\<lambda>m. \<not> isl (initialSvgContent example_platform (src m))
                     \<and> \<not> isl (start_fetch example_platform (src m)))
          (collect two_svg_images 0)"
    by code_simp
  with processSvgImages_frame [where pf = example_platform and html = two_svg_images
      and translate = echo_translate and r = example_renderer and pg = empty_page, THEN conjunct1]
  have "\<not> isl ?run" by (rule mp)
  then obtain out pg' where run: "?run = Inr (out, pg')"
    by (cases ?run) auto
  with ev have out: "out = ?out" by simp
  have ms: \<open>map fullMatch (collect two_svg_images 0)
      = [''<img alt="a" src="https://example.com/a.svg">'', ''<img src="data:text/plain,q.svg">'']\<close>
    by code_simp
  from processSvgImages_frame [where pf = example_platform and html = two_svg_images
      and translate = echo_translate and r = example_renderer and pg = empty_page
      and out = out and pg' = pg', THEN conjunct2, THEN conjunct1, rule_format, OF run]
  have \<open>\<exists>segs places tail.
         two_svg_images = joined segs @ tail
         \<and> map snd segs = [''<img alt="a" src="https://example.com/a.svg">'',
                            ''<img src="data:text/plain,q.svg">'']
         \<and> length places = length segs
         \<and> ?out = substituted echo_translate segs places @ tail\<close>
    unfolding ms out .
  with ev show ?thesis by (rule conjI)
qed

subsection \<open>An inline base64 source\<close>

lemma dot_outside_tail:
  assumes "suffix tail xs" and "CHR ''.'' \<in> set xs" and "CHR ''.'' \<notin> set tail"
  shows "CHR ''.'' \<in> set (take (length xs - length tail) xs)"
proof -
  from assms(1) obtain ys where "xs = ys @ tail" by (auto simp: suffix_def)
  with assms(2,3) show ?thesis by simp
qed

lemma atob_standard_rejects_dot:
  assumes "CHR ''.'' \<in> set s"
  shows "atob_standard s = Inl (JsError ''InvalidCharacterError'')"
proof -
  define stripped where
    "stripped = filter (\<lambda>c. c \<notin> set [CHR 0x09, CHR 0x0A, CHR 0x0C, CHR 0x0D, CHR 0x20]) s"
  define dat where
    "dat = (if length stripped mod 4 = 0 then
              (if suffix ''=='' stripped then take (length stripped - 2) stripped
               else if suffix ''='' stripped then take (length stripped - 1) stripped
               else stripped)
            else stripped)"
  have in_stripped: "CHR ''.'' \<in> set stripped"
    using assms by (simp add: stripped_def)
  have two: "suffix ''=='' stripped \<Longrightarrow> CHR ''.'' \<in> set (take (length stripped - 2) stripped)"
    using dot_outside_tail [of "''==''" stripped] in_stripped
    by (simp add: numeral_2_eq_2)
  have one: "suffix ''='' stripped \<Longrightarrow> CHR ''.'' \<in> set (take (length stripped - 1) stripped)"
    using dot_outside_tail [of "''=''" stripped] in_stripped by simp
  have "CHR ''.'' \<in> set dat"
    unfolding dat_def using in_stripped two one by presburger
  moreover have "CHR ''.'' \<notin> set base64_alphabet"
    by (simp add: base64_alphabet_def)
  ultimately have "\<not> list_all (\<lambda>c. c \<in> set base64_alphabet) dat"
    unfolding list_all_iff by blast
  then show ?thesis
    unfolding atob_standard_def Let_def stripped_def [symmetric] dat_def [symmetric] by simp
qed

text \<open>
  C10. The claim holds of the runs that return (\<open>processSvgImages_frame\<close>), and the code
  does not return on every input. The pattern matches an inline base64 source only when
  it ends in \<^verbatim>\<open>.svg\<close>, and the source hands all that follows the comma, the ending
  included, to \<^verbatim>\<open>atob\<close>, which refuses the dot. On this markup the pattern finds two
  tags, and the function throws: no tag is replaced and there is no output.
\<close>

theorem processSvgImages_base64_source_throws:
  \<open>map fullMatch (collect local_and_base64_images 0)
     = [''<img src="l.svg">'', ''<img src="data:image/svg+xml;base64,PHN2Zz4=.svg">'']
   \<and> atob_standard ''PHN2Zz4='' = Inr ''<svg>''
   \<and> thrown_by (processSvgImages browser_platform echo_translate example_renderer
         local_and_base64_images empty_page)
       = Some (JsError ''InvalidCharacterError'')\<close>
  by code_simp

end
